theory Spec2Isabelle
  imports Complex_Main
begin

section \<open>JavaScript strings\<close>

text \<open>
  A JavaScript string is a sequence of UTF-16 code units. The literals of
  \<^verbatim>\<open>pagination-detector.js\<close> that are plain ASCII are written with \<open>ascii\<close>; the
  others (arrows, CJK, Hangul, accented Latin-1 letters) are written as code units.
\<close>

type_synonym jstring = "nat list"

definition ascii :: "string \<Rightarrow> jstring" where
  "ascii s = map of_char s"

text \<open>
  \<^verbatim>\<open>WhiteSpace\<close> and \<^verbatim>\<open>LineTerminator\<close> of ECMAScript: what \<^verbatim>\<open>String.prototype.trim\<close>
  strips and what \<^verbatim>\<open>\s\<close> matches.
\<close>

definition isJsSpace :: "nat \<Rightarrow> bool" where
  "isJsSpace c \<longleftrightarrow>
     (9 \<le> c \<and> c \<le> 13) \<or> c = 32 \<or> c = 160 \<or> c = 5760 \<or> (8192 \<le> c \<and> c \<le> 8202) \<or>
     c = 8232 \<or> c = 8233 \<or> c = 8239 \<or> c = 8287 \<or> c = 12288 \<or> c = 65279"

definition isLineTerminator :: "nat \<Rightarrow> bool" where
  "isLineTerminator c \<longleftrightarrow> c = 10 \<or> c = 13 \<or> c = 8232 \<or> c = 8233"

definition isDigit :: "nat \<Rightarrow> bool" where
  "isDigit c \<longleftrightarrow> 48 \<le> c \<and> c \<le> 57"

definition trim :: "jstring \<Rightarrow> jstring" where
  "trim s = rev (dropWhile isJsSpace (rev (dropWhile isJsSpace s)))"

text \<open>
  Case mappings, per code unit. Only Basic Latin and Latin-1 letters are given a case
  pair; every other code unit is left alone. The patterns of the detector contain no
  cased letter outside these two blocks, and no code unit outside them is mapped by
  ECMAScript onto a code unit sequence that could complete one of the patterns, so the
  pattern tests below agree with the engine on every text.

  \<open>lowerUnit\<close> is \<^verbatim>\<open>String.prototype.toLowerCase\<close>; \<open>canonUnit\<close> is the \<^verbatim>\<open>Canonicalize\<close>
  of a regular expression with the \<^verbatim>\<open>i\<close> flag and without the \<^verbatim>\<open>u\<close> flag (upper-casing).
\<close>

definition lowerUnit :: "nat \<Rightarrow> nat" where
  "lowerUnit c = (if (65 \<le> c \<and> c \<le> 90) \<or> (192 \<le> c \<and> c \<le> 222 \<and> c \<noteq> 215) then c + 32 else c)"

definition toLowerCase :: "jstring \<Rightarrow> jstring" where
  "toLowerCase s = map lowerUnit s"

definition canonUnit :: "bool \<Rightarrow> nat \<Rightarrow> nat" where
  "canonUnit ignoreCase c =
     (if ignoreCase \<and> ((97 \<le> c \<and> c \<le> 122) \<or> (224 \<le> c \<and> c \<le> 254 \<and> c \<noteq> 247)) then c - 32 else c)"

text \<open>
  The values a DOM property can have here: \<^verbatim>\<open>undefined\<close>, \<^verbatim>\<open>null\<close>, a string, or an object,
  of which only the class name matters (\<^verbatim>\<open>SVGAnimatedString\<close> for the \<^verbatim>\<open>className\<close> and the
  \<^verbatim>\<open>href\<close> of an SVG element). \<open>toStr\<close> is the conversion to a string that a template
  literal and the setter of \<^verbatim>\<open>location.href\<close> apply; \<open>truthyV\<close> is the test of \<^verbatim>\<open>if\<close>,
  \<^verbatim>\<open>||\<close> and \<^verbatim>\<open>!\<close>.
\<close>

datatype jsvalue = Undefined | Null | Str jstring | Obj string

fun toStr :: "jsvalue \<Rightarrow> jstring" where
  "toStr Undefined = ascii ''undefined''"
| "toStr Null = ascii ''null''"
| "toStr (Str s) = s"
| "toStr (Obj c) = ascii ''[object '' @ ascii c @ ascii '']''"

fun truthyV :: "jsvalue \<Rightarrow> bool" where
  "truthyV Undefined = False"
| "truthyV Null = False"
| "truthyV (Str s) = (s \<noteq> [])"
| "truthyV (Obj c) = True"

fun suffixesOf :: "'a list \<Rightarrow> 'a list list" where
  "suffixesOf [] = [[]]"
| "suffixesOf (x # xs) = (x # xs) # suffixesOf xs"

text \<open>\<^verbatim>\<open>String.prototype.includes\<close>: the pattern occurs at some position.\<close>

definition includesStr :: "jstring \<Rightarrow> jstring \<Rightarrow> bool" where
  "includesStr s p = list_ex (\<lambda>t. take (length p) t = p) (suffixesOf s)"

text \<open>
  The first defined result of a loop body over a list: a \<^verbatim>\<open>for (const x of xs)\<close> whose body
  returns from the enclosing function on success and falls through otherwise.
\<close>

fun firstSome :: "('a \<Rightarrow> 'b option) \<Rightarrow> 'a list \<Rightarrow> 'b option" where
  "firstSome f [] = None"
| "firstSome f (x # xs) = (case f x of Some y \<Rightarrow> Some y | None \<Rightarrow> firstSome f xs)"

section \<open>Regular expressions\<close>

text \<open>
  The fragment of the regular expression language that the detector uses. A character
  class stands for \<^verbatim>\<open>\s\<close>, \<^verbatim>\<open>.\<close>, \<^verbatim>\<open>\d\<close> and \<^verbatim>\<open>[^'"]\<close>; repetition is only ever applied
  to a class.
\<close>

datatype cls = Space | Dot | Digit | NotQuote

fun inCls :: "cls \<Rightarrow> nat \<Rightarrow> bool" where
  "inCls Space c = isJsSpace c"
| "inCls Dot c = (\<not> isLineTerminator c)"
| "inCls Digit c = isDigit c"
| "inCls NotQuote c = (c \<noteq> 39 \<and> c \<noteq> 34)"

datatype rx =
    Lit jstring
  | Seq rx rx
  | Alt rx rx
  | Opt rx
  | Star cls
  | Plus cls

text \<open>
  \<open>matchAt i r s\<close> lists what is left of \<open>s\<close> after each way \<open>r\<close> can match a prefix of
  it, in the order in which a backtracking engine tries them (greedy repetition first).
\<close>

fun dropsFrom :: "nat \<Rightarrow> jstring \<Rightarrow> jstring list" where
  "dropsFrom 0 s = [s]"
| "dropsFrom (Suc n) s = drop (Suc n) s # dropsFrom n s"

fun matchAt :: "bool \<Rightarrow> rx \<Rightarrow> jstring \<Rightarrow> jstring list" where
  "matchAt i (Lit l) s =
     (if length l \<le> length s \<and> map (canonUnit i) (take (length l) s) = map (canonUnit i) l
      then [drop (length l) s] else [])"
| "matchAt i (Seq a b) s = concat (map (matchAt i b) (matchAt i a s))"
| "matchAt i (Alt a b) s = matchAt i a s @ matchAt i b s"
| "matchAt i (Opt a) s = matchAt i a s @ [s]"
| "matchAt i (Star c) s = dropsFrom (length (takeWhile (inCls c) s)) s"
| "matchAt i (Plus c) s = butlast (dropsFrom (length (takeWhile (inCls c) s)) s)"

record regex =
  body :: rx
  ignoreCase :: bool
  anchored :: bool

text \<open>
  \<^verbatim>\<open>RegExp.prototype.test\<close>. An anchored expression (\<^verbatim>\<open>^...$\<close>, no \<^verbatim>\<open>m\<close> flag) must match
  the whole string; any other one may match anywhere.
\<close>

definition test :: "regex \<Rightarrow> jstring \<Rightarrow> bool" where
  "test r s =
     (if anchored r then [] \<in> set (matchAt (ignoreCase r) (body r) s)
      else list_ex (\<lambda>t. matchAt (ignoreCase r) (body r) t \<noteq> []) (suffixesOf s))"

definition rxI :: "rx \<Rightarrow> regex" where
  "rxI r = \<lparr>body = r, ignoreCase = True, anchored = False\<rparr>"

definition rxS :: "rx \<Rightarrow> regex" where
  "rxS r = \<lparr>body = r, ignoreCase = False, anchored = False\<rparr>"

definition rxFull :: "rx \<Rightarrow> regex" where
  "rxFull r = \<lparr>body = r, ignoreCase = False, anchored = True\<rparr>"

definition word :: "string \<Rightarrow> rx" where
  "word s = Lit (ascii s)"

section \<open>The document\<close>

text \<open>
  The detector reads the page through the DOM. A document is the list of its elements
  in document order, each with its nesting depth: element \<open>j\<close> lies inside element \<open>i\<close>
  when \<open>i < j\<close> and every element from \<open>i + 1\<close> to \<open>j\<close> is deeper than \<open>i\<close>. An element
  reference is its position in that list.

  What the browser computes for an element is part of the element: whether it is an
  HTML element, its text (\<open>innerText\<close> is empty where the property is undefined, which
  \<^verbatim>\<open>||\<close> does not tell apart), the values of the properties \<^verbatim>\<open>className\<close> and \<^verbatim>\<open>href\<close>
  (for an HTML element the class attribute and the resolved URL, for an SVG element an
  object), whether \<^verbatim>\<open>disabled\<close> is truthy, the computed style and the bounding box.
\<close>

record element =
  tagName :: string
  html :: bool
  attrs :: "(string \<times> jstring) list"
  depth :: nat
  textContent :: jstring
  innerText :: jstring
  className :: jsvalue
  href :: jsvalue
  disabled :: bool
  display :: string
  visibility :: string
  opacity :: string
  rectWidth :: rat
  rectHeight :: rat

record document =
  elements :: "element list"
  locationHref :: jstring

definition el :: "document \<Rightarrow> nat \<Rightarrow> element" where
  "el doc i = elements doc ! i"

definition getAttribute :: "element \<Rightarrow> string \<Rightarrow> jstring option" where
  "getAttribute e name = map_of (attrs e) name"

definition hasAttribute :: "element \<Rightarrow> string \<Rightarrow> bool" where
  "hasAttribute e name \<longleftrightarrow> getAttribute e name \<noteq> None"

text \<open>\<^verbatim>\<open>id\<close> reflects the attribute, the empty string when absent.\<close>

definition idOf :: "element \<Rightarrow> jstring" where
  "idOf e = (case getAttribute e ''id'' of Some v \<Rightarrow> v | None \<Rightarrow> [])"

definition isAsciiSpace :: "nat \<Rightarrow> bool" where
  "isAsciiSpace c \<longleftrightarrow> c = 9 \<or> c = 10 \<or> c = 12 \<or> c = 13 \<or> c = 32"

fun tokens :: "jstring \<Rightarrow> jstring \<Rightarrow> jstring list" where
  "tokens acc [] = (if acc = [] then [] else [acc])"
| "tokens acc (c # cs) =
     (if isAsciiSpace c then (if acc = [] then tokens [] cs else acc # tokens [] cs)
      else tokens (acc @ [c]) cs)"

text \<open>\<^verbatim>\<open>classList\<close> holds the tokens of the class attribute, for every kind of element.\<close>

definition classListContains :: "element \<Rightarrow> jstring \<Rightarrow> bool" where
  "classListContains e tok \<longleftrightarrow>
     tok \<in> set (tokens [] (case getAttribute e ''class'' of Some v \<Rightarrow> v | None \<Rightarrow> []))"

subsection \<open>Selectors\<close>

text \<open>
  The selectors the detector passes to \<^verbatim>\<open>querySelector\<close> and \<^verbatim>\<open>querySelectorAll\<close>: a
  comma-separated list of compound selectors, each possibly under one ancestor
  (\<^verbatim>\<open>.pagination a\<close>). On an HTML element the value of \<^verbatim>\<open>rel\<close> is compared without regard
  to ASCII case; the values of \<^verbatim>\<open>role\<close> and \<^verbatim>\<open>aria-current\<close> are compared exactly.
\<close>

datatype simple = Tag string | Class string | HasAttr string | AttrEq string jstring

datatype complexSel = Only "simple list" | Within "simple list" "simple list"

type_synonym selector = "complexSel list"

definition asciiLower :: "nat \<Rightarrow> nat" where
  "asciiLower c = (if 65 \<le> c \<and> c \<le> 90 then c + 32 else c)"

fun matchesSimple :: "element \<Rightarrow> simple \<Rightarrow> bool" where
  "matchesSimple e (Tag t) = (tagName e = t)"
| "matchesSimple e (Class c) = classListContains e (ascii c)"
| "matchesSimple e (HasAttr n) = hasAttribute e n"
| "matchesSimple e (AttrEq n v) =
     (case getAttribute e n of
        None \<Rightarrow> False
      | Some w \<Rightarrow>
          if n = ''rel'' \<and> html e then map asciiLower w = map asciiLower v else w = v)"

fun below :: "nat \<Rightarrow> nat \<Rightarrow> element list \<Rightarrow> nat list" where
  "below d j [] = []"
| "below d j (e # es) = (if d < depth e then j # below d (Suc j) es else [])"

definition descendants :: "document \<Rightarrow> nat \<Rightarrow> nat list" where
  "descendants doc i = below (depth (el doc i)) (Suc i) (drop (Suc i) (elements doc))"

definition ancestors :: "document \<Rightarrow> nat \<Rightarrow> nat list" where
  "ancestors doc i = filter (\<lambda>j. i \<in> set (descendants doc j)) [0..<i]"

fun matchesComplex :: "document \<Rightarrow> nat \<Rightarrow> complexSel \<Rightarrow> bool" where
  "matchesComplex doc i (Only c) = list_all (matchesSimple (el doc i)) c"
| "matchesComplex doc i (Within outer c) =
     (list_all (matchesSimple (el doc i)) c \<and>
      list_ex (\<lambda>j. list_all (matchesSimple (el doc j)) outer) (ancestors doc i))"

definition matchesSel :: "document \<Rightarrow> selector \<Rightarrow> nat \<Rightarrow> bool" where
  "matchesSel doc sel i = list_ex (matchesComplex doc i) sel"

definition querySelectorAll :: "document \<Rightarrow> selector \<Rightarrow> nat list" where
  "querySelectorAll doc sel = filter (matchesSel doc sel) [0..<length (elements doc)]"

definition querySelector :: "document \<Rightarrow> selector \<Rightarrow> nat option" where
  "querySelector doc sel = (case querySelectorAll doc sel of [] \<Rightarrow> None | i # _ \<Rightarrow> Some i)"

text \<open>\<^verbatim>\<open>container.querySelectorAll\<close>: the matching elements inside the container.\<close>

definition querySelectorAllIn :: "document \<Rightarrow> nat \<Rightarrow> selector \<Rightarrow> nat list" where
  "querySelectorAllIn doc c sel = filter (matchesSel doc sel) (descendants doc c)"

definition getElementById :: "document \<Rightarrow> jstring \<Rightarrow> nat option" where
  "getElementById doc ident =
     (if ident = [] then None
      else List.find (\<lambda>i. getAttribute (el doc i) ''id'' = Some ident) [0..<length (elements doc)])"

section \<open>Validator and extractors\<close>

text \<open>
  \<^verbatim>\<open>isValidNextPageElement\<close>. The argument is \<open>None\<close> for \<^verbatim>\<open>null\<close>.
\<close>

definition isValidNextPageElement :: "document \<Rightarrow> nat option \<Rightarrow> bool" where
  "isValidNextPageElement doc element =
     (case element of
        None \<Rightarrow> False
      | Some i \<Rightarrow>
          (let e = el doc i in
           if display e = ''none'' \<or> visibility e = ''hidden'' \<or> opacity e = ''0'' then False
           else if rectWidth e = 0 \<and> rectHeight e = 0 then False
           else if disabled e \<or> getAttribute e ''disabled'' = Some (ascii ''true'') then False
           else True))"

text \<open>
  \<^verbatim>\<open>a || b\<close> on strings that may be \<^verbatim>\<open>null\<close>: the first operand unless it is \<^verbatim>\<open>null\<close> or
  empty.
\<close>

definition truthy :: "jstring option \<Rightarrow> bool" where
  "truthy v \<longleftrightarrow> (case v of None \<Rightarrow> False | Some s \<Rightarrow> s \<noteq> [])"

definition orElse :: "jstring option \<Rightarrow> jstring option \<Rightarrow> jstring option" where
  "orElse a b = (if truthy a then a else b)"

definition orEmpty :: "jstring option \<Rightarrow> jstring" where
  "orEmpty a = (case a of None \<Rightarrow> [] | Some s \<Rightarrow> s)"

definition getElementText :: "document \<Rightarrow> nat \<Rightarrow> jstring" where
  "getElementText doc i =
     (let e = el doc i;
          text0 = orEmpty (orElse (Some (textContent e)) (Some (innerText e)));
          text1 = text0 @ ascii '' '' @ orEmpty (getAttribute e ''title'');
          text2 = text1 @ ascii '' '' @ orEmpty (getAttribute e ''alt'');
          text3 = text2 @ ascii '' '' @ orEmpty (getAttribute e ''value'')
      in trim text3)"

text \<open>
  The expression matched against an \<^verbatim>\<open>onclick\<close> handler,
  \<^verbatim>\<open>/(?:location\.href|window\.location)\s*=\s*['"]([^'"]+)['"]/\<close>, up to its opening
  quote; the group is the longest run without a quote that follows, and a quote must
  close it.
\<close>

definition onclickPrefix :: rx where
  "onclickPrefix =
     Seq (Alt (word ''location.href'') (word ''window.location''))
       (Seq (Star Space) (Seq (word ''='') (Seq (Star Space) (Alt (word [CHR 0x27]) (word [CHR 0x22])))))"

definition groupAt :: "jstring \<Rightarrow> jstring option" where
  "groupAt t =
     firstSome
       (\<lambda>r. let g = takeWhile (inCls NotQuote) r
            in if g \<noteq> [] \<and> length g < length r then Some g else None)
       (matchAt False onclickPrefix t)"

definition onclickUrl :: "jstring \<Rightarrow> jstring option" where
  "onclickUrl s = firstSome groupAt (suffixesOf s)"

definition getElementUrl :: "document \<Rightarrow> nat \<Rightarrow> jsvalue" where
  "getElementUrl doc i =
     (let e = el doc i in
      if truthyV (href e) then href e
      else
        let dataHref = orElse (getAttribute e ''data-href'')
                         (orElse (getAttribute e ''data-url'') (getAttribute e ''data-link''))
        in if truthy dataHref then Str (orEmpty dataHref)
           else
             (case getAttribute e ''onclick'' of
                Some onclick \<Rightarrow>
                  if onclick \<noteq> [] then
                    (case onclickUrl onclick of Some u \<Rightarrow> Str u | None \<Rightarrow> Null)
                  else Null
              | None \<Rightarrow> Null))"

section \<open>The detector\<close>

subsection \<open>Pattern tables of the constructor\<close>

definition textPatterns :: "regex list" where
  "textPatterns =
     [rxI (Seq (word ''next'') (Seq (Star Space) (Opt (word ''page'')))),
      rxI (word ''siguiente''),
      rxI (word ''suivant''),
      rxI (word ''weiter''),
      rxI (Alt (Lit [27425, 12408]) (Lit [27425, 12398, 12506, 12540, 12472])),
      rxI (Lit [45796, 51020]),
      rxI (Alt (Lit [19979, 19968, 39029]) (Lit [19979, 19968, 38913])),
      rxI (Lit [112, 114, 243, 120, 105, 109, 97]),
      rxI (word ''volgende''),
      rxI (Lit [110, 228, 115, 116, 97]),
      rxI (Lit [102, 248, 108, 103, 101, 110, 100, 101]),
      rxS (Alt (Lit [8594]) (Alt (Lit [8250]) (Alt (Lit [187]) (Alt (Lit [10217])
             (Alt (Lit [8680]) (Alt (Lit [10132]) (Alt (Lit [10140]) (Lit [10145]))))))))]"

definition classIdPatterns :: "regex list" where
  "classIdPatterns =
     [rxI (word ''next''),
      rxI (Seq (word ''pagination'') (Seq (Star Dot) (word ''next''))),
      rxI (Seq (word ''nav'') (Seq (Star Dot) (word ''next''))),
      rxI (word ''forward''),
      rxI (Seq (word ''arrow'') (Seq (Star Dot) (word ''right''))),
      rxI (Seq (word ''chevron'') (Seq (Star Dot) (word ''right'')))]"

definition relPatterns :: "jstring list" where
  "relPatterns = [ascii ''next'', ascii ''nofollow next'']"

definition ariaPatterns :: "regex list" where
  "ariaPatterns =
     [rxI (word ''next''),
      rxI (word ''go to next''),
      rxI (word ''navigate to next'')]"

definition paginationSelectors :: "selector list" where
  "paginationSelectors =
     [[Only [Class ''pagination'']],
      [Only [Class ''pager'']],
      [Only [Class ''page-navigation'']],
      [Only [Class ''nav-links'']],
      [Only [AttrEq ''role'' (ascii ''navigation'')]],
      [Only [Tag ''nav'']],
      [Only [Class ''paginator'']],
      [Only [Class ''page-numbers'']],
      [Only [Class ''wp-pagenavi'']],
      [Only [Class ''pagination-wrapper'']]]"

definition infiniteScrollPatterns :: "jstring list" where
  "infiniteScrollPatterns =
     [ascii ''load more'',
      ascii ''show more'',
      ascii ''see more'',
      ascii ''view more'',
      [99, 97, 114, 103, 97, 114, 32, 109, 225, 115],
      ascii ''charger plus'',
      ascii ''mehr laden'',
      [12418, 12387, 12392, 35211, 12427],
      [45908, 32, 48372, 44592],
      [21152, 36733, 26356, 22810]]"

subsection \<open>Candidates\<close>

datatype strategy =
  RelAttribute | TextContent | ClassId | AriaLabel | NumberedPagination | InfiniteScroll

text \<open>
  The object a matcher returns. A property the matcher does not set is \<open>None\<close>. The
  argument of \<^verbatim>\<open>navigateToNextPage\<close> is any such object, so
  its \<open>element\<close> may be missing too.
\<close>

record candidate =
  element :: "nat option"
  url :: jsvalue
  type :: strategy
  confidence :: rat
  clickOnly :: "bool option"
  isLoadMore :: "bool option"

definition clickableSelector :: selector where
  "clickableSelector =
     [Only [Tag ''a'', HasAttr ''href''],
      Only [Tag ''button'', HasAttr ''onclick''],
      Only [Tag ''button'', HasAttr ''data-href'']]"

subsection \<open>The six matchers\<close>

text \<open>The selector \<^verbatim>\<open>`a[rel="${relValue}"], link[rel="${relValue}"]`\<close>.\<close>

definition relSelector :: "jstring \<Rightarrow> selector" where
  "relSelector relValue =
     [Only [Tag ''a'', AttrEq ''rel'' relValue], Only [Tag ''link'', AttrEq ''rel'' relValue]]"

definition findByRelAttribute :: "document \<Rightarrow> candidate option" where
  "findByRelAttribute doc =
     firstSome
       (\<lambda>relValue.
          let link = querySelector doc (relSelector relValue)
          in case link of
               None \<Rightarrow> None
             | Some l \<Rightarrow>
                 if isValidNextPageElement doc link then
                   Some \<lparr>element = Some l, url = href (el doc l), type = RelAttribute,
                         confidence = 1, clickOnly = None, isLoadMore = None\<rparr>
                 else None)
       relPatterns"

definition findByTextContent :: "document \<Rightarrow> candidate option" where
  "findByTextContent doc =
     (let links = querySelectorAll doc clickableSelector in
      firstSome
        (\<lambda>link.
           let text = getElementText doc link in
           firstSome
             (\<lambda>pattern.
                if test pattern text then
                  (let url = getElementUrl doc link in
                   if isValidNextPageElement doc (Some link) then
                     Some \<lparr>element = Some link, url = (if truthyV url then url else Null),
                           type = TextContent, confidence = 9 / 10,
                           clickOnly = Some (\<not> truthyV url), isLoadMore = None\<rparr>
                   else None)
                else None)
             textPatterns)
        links)"

text \<open>The string \<^verbatim>\<open>`${element.className} ${element.id}`\<close>.\<close>

definition classIdOf :: "document \<Rightarrow> nat \<Rightarrow> jstring" where
  "classIdOf doc e = toStr (className (el doc e)) @ ascii '' '' @ idOf (el doc e)"

definition findByClassId :: "document \<Rightarrow> candidate option" where
  "findByClassId doc =
     firstSome
       (\<lambda>pattern.
          let elems = querySelectorAll doc clickableSelector in
          firstSome
            (\<lambda>e.
               let classId = classIdOf doc e in
               if test pattern classId then
                 (let url = getElementUrl doc e in
                  if isValidNextPageElement doc (Some e) then
                    Some \<lparr>element = Some e, url = (if truthyV url then url else Null),
                          type = ClassId, confidence = 8 / 10,
                          clickOnly = Some (\<not> truthyV url), isLoadMore = None\<rparr>
                  else None)
               else None)
            elems)
       classIdPatterns"

definition ariaLabelText :: "document \<Rightarrow> nat \<Rightarrow> jstring" where
  "ariaLabelText doc e =
     (let ariaLabel = orEmpty (orElse (getAttribute (el doc e) ''aria-label'') (Some []));
          ariaLabelledBy = getAttribute (el doc e) ''aria-labelledby''
      in if truthy ariaLabelledBy then
           ariaLabel @ ascii '' '' @
             (case getElementById doc (orEmpty ariaLabelledBy) of
                Some labelElement \<Rightarrow> textContent (el doc labelElement)
              | None \<Rightarrow> [])
         else ariaLabel)"

definition ariaSelector :: selector where
  "ariaSelector = [Only [HasAttr ''aria-label''], Only [HasAttr ''aria-labelledby'']]"

definition findByAriaLabel :: "document \<Rightarrow> candidate option" where
  "findByAriaLabel doc =
     (let elems = querySelectorAll doc ariaSelector in
      firstSome
        (\<lambda>e.
           let labelText = ariaLabelText doc e in
           firstSome
             (\<lambda>pattern.
                if test pattern labelText then
                  (let url = getElementUrl doc e in
                   if isValidNextPageElement doc (Some e) then
                     Some \<lparr>element = Some e, url = (if truthyV url then url else Null),
                           type = AriaLabel, confidence = 85 / 100,
                           clickOnly = Some (\<not> truthyV url), isLoadMore = None\<rparr>
                   else None)
                else None)
             ariaPatterns)
        elems)"

text \<open>\<^verbatim>\<open>Array.prototype.findIndex\<close>: the first position that satisfies the test, or \<open>-1\<close>.\<close>

fun findIndex :: "('a \<Rightarrow> bool) \<Rightarrow> 'a list \<Rightarrow> int" where
  "findIndex P [] = - 1"
| "findIndex P (x # xs) =
     (if P x then 0 else (let r = findIndex P xs in if r < 0 then - 1 else r + 1))"

definition isCurrentLink :: "document \<Rightarrow> nat \<Rightarrow> bool" where
  "isCurrentLink doc link \<longleftrightarrow>
     classListContains (el doc link) (ascii ''current'') \<or>
     classListContains (el doc link) (ascii ''active'') \<or>
     getAttribute (el doc link) ''aria-current'' = Some (ascii ''page'') \<or>
     hasAttribute (el doc link) ''disabled''"

definition nextIndicator :: regex where
  "nextIndicator = rxI (Alt (word ''next'') (Alt (Lit [8250]) (Alt (Lit [8594]) (Lit [187]))))"

definition linkSelector :: selector where
  "linkSelector = [Only [Tag ''a'', HasAttr ''href'']]"

text \<open>The body of the loop of \<^verbatim>\<open>findNumberedPagination\<close>, for one selector.\<close>

definition numberedIn :: "document \<Rightarrow> selector \<Rightarrow> candidate option" where
  "numberedIn doc sel =
     (case querySelector doc sel of
        None \<Rightarrow> None
      | Some container \<Rightarrow>
          (let links = querySelectorAllIn doc container linkSelector;
               currentPageIndex = findIndex (isCurrentLink doc) links
           in if 0 \<le> currentPageIndex \<and> currentPageIndex < int (length links) - 1 then
                (let nextLink = links ! nat (currentPageIndex + 1);
                     nextText = getElementText doc nextLink
                 in if test (rxFull (Plus Digit)) nextText \<or> test nextIndicator nextText then
                      Some \<lparr>element = Some nextLink, url = href (el doc nextLink),
                            type = NumberedPagination, confidence = 95 / 100,
                            clickOnly = None, isLoadMore = None\<rparr>
                    else None)
              else None))"

definition findNumberedPagination :: "document \<Rightarrow> candidate option" where
  "findNumberedPagination doc = firstSome (numberedIn doc) paginationSelectors"

definition buttonSelector :: selector where
  "buttonSelector =
     [Only [Tag ''button''], Only [Tag ''a'', HasAttr ''href''],
      Only [AttrEq ''role'' (ascii ''button'')]]"

definition findInfiniteScrollButton :: "document \<Rightarrow> candidate option" where
  "findInfiniteScrollButton doc =
     (let buttons = querySelectorAll doc buttonSelector
      in firstSome
           (\<lambda>button.
              let text = toLowerCase (getElementText doc button) in
              firstSome
                (\<lambda>pattern.
                   if includesStr text (toLowerCase pattern) then
                     (let url = getElementUrl doc button in
                      Some \<lparr>element = Some button,
                            url = (if truthyV url then url else Str (locationHref doc)),
                            type = InfiniteScroll, confidence = 7 / 10,
                            clickOnly = None, isLoadMore = Some True\<rparr>)
                   else None)
                infiniteScrollPatterns)
           buttons)"

subsection \<open>The cascade\<close>

text \<open>
  \<^verbatim>\<open>findNextPage\<close> holds the matchers as closures and calls them one after the other.
  \<open>runMethods\<close> returns, with the result, how many closures it has called.
\<close>

definition methods :: "document \<Rightarrow> (unit \<Rightarrow> candidate option) list" where
  "methods doc =
     [\<lambda>_. findByRelAttribute doc,
      \<lambda>_. findByTextContent doc,
      \<lambda>_. findByClassId doc,
      \<lambda>_. findByAriaLabel doc,
      \<lambda>_. findNumberedPagination doc,
      \<lambda>_. findInfiniteScrollButton doc]"

fun runMethods :: "(unit \<Rightarrow> 'a option) list \<Rightarrow> 'a option \<times> nat" where
  "runMethods [] = (None, 0)"
| "runMethods (m # ms) =
     (case m () of
        Some result \<Rightarrow> (Some result, 1)
      | None \<Rightarrow> (case runMethods ms of (r, n) \<Rightarrow> (r, Suc n)))"

definition findNextPage :: "document \<Rightarrow> candidate option" where
  "findNextPage doc = fst (runMethods (methods doc))"

definition methodsCalled :: "document \<Rightarrow> nat" where
  "methodsCalled doc = snd (runMethods (methods doc))"

subsection \<open>Pagination info\<close>

text \<open>
  The numbers that \<^verbatim>\<open>parseInt\<close> returns: \<^verbatim>\<open>NaN\<close>, an integer with its sign (so that
  \<^verbatim>\<open>-0\<close> is told from \<^verbatim>\<open>0\<close>), or an infinity; the flag says negative. An integer that
  has more than 53 significant bits is rounded to the nearest double, ties to even;
  \<open>halvings n\<close> is the number of low bits that do not fit.
\<close>

datatype number = NaN | Num bool nat | Infinity bool

function halvings :: "nat \<Rightarrow> nat" where
  "halvings n = (if n < 2 ^ 53 then 0 else Suc (halvings (n div 2)))"
  by pat_completeness auto
termination
  by (relation "measure id") auto

definition roundTiesToEven :: "nat \<Rightarrow> nat" where
  "roundTiesToEven n =
     (let e = halvings n; q = n div 2 ^ e; r = n mod 2 ^ e
      in if 2 * r > 2 ^ e \<or> (2 * r = 2 ^ e \<and> odd q) then (q + 1) * 2 ^ e else q * 2 ^ e)"

definition toNumber :: "bool \<Rightarrow> nat \<Rightarrow> number" where
  "toNumber negative n =
     (let v = roundTiesToEven n in if v \<ge> 2 ^ 1024 then Infinity negative else Num negative v)"

text \<open>
  \<^verbatim>\<open>parseInt\<close> with no radix argument: leading white space, an optional sign, an optional
  \<^verbatim>\<open>0x\<close> prefix, then the longest run of digits, whose exact value is converted to a
  number. (ECMAScript lets an implementation read the decimal digits after the twentieth
  as zeros; the model converts the exact value, as V8 does.)
\<close>

definition digitValue :: "nat \<Rightarrow> nat \<Rightarrow> nat option" where
  "digitValue radix c =
     (let v = (if 48 \<le> c \<and> c \<le> 57 then c - 48
               else if 97 \<le> c \<and> c \<le> 122 then c - 87
               else if 65 \<le> c \<and> c \<le> 90 then c - 55
               else radix)
      in if v < radix then Some v else None)"

fun digitsValue :: "nat \<Rightarrow> nat \<Rightarrow> jstring \<Rightarrow> nat" where
  "digitsValue radix acc [] = acc"
| "digitsValue radix acc (c # cs) =
     (case digitValue radix c of
        Some v \<Rightarrow> digitsValue radix (acc * radix + v) cs
      | None \<Rightarrow> acc)"

definition parseInt :: "jstring \<Rightarrow> number" where
  "parseInt input =
     (let s = dropWhile isJsSpace input;
          negative = (take 1 s = ascii ''-'');
          s1 = (if take 1 s = ascii ''-'' \<or> take 1 s = ascii ''+'' then drop 1 s else s);
          hex = (take 2 s1 = ascii ''0x'' \<or> take 2 s1 = ascii ''0X'');
          radix = (if hex then 16 else 10);
          s2 = (if hex then drop 2 s1 else s1)
      in case s2 of
           [] \<Rightarrow> NaN
         | c # _ \<Rightarrow>
             (if digitValue radix c = None then NaN
              else toNumber negative (digitsValue radix 0 s2)))"

definition isNaN :: "number \<Rightarrow> bool" where
  "isNaN x \<longleftrightarrow> x = NaN"

text \<open>
  The order of the numbers that are not \<^verbatim>\<open>NaN\<close>, with \<^verbatim>\<open>-0\<close> below \<^verbatim>\<open>0\<close> as \<^verbatim>\<open>Math.max\<close>
  has it. \<^verbatim>\<open>Math.max\<close> starts from minus infinity and keeps the highest argument.
\<close>

fun rank :: "number \<Rightarrow> int \<times> int" where
  "rank NaN = (2, 0)"
| "rank (Infinity True) = (- 1, 0)"
| "rank (Infinity False) = (1, 0)"
| "rank (Num True m) = (0, - 2 * int m - 1)"
| "rank (Num False m) = (0, 2 * int m)"

definition numLess :: "number \<Rightarrow> number \<Rightarrow> bool" where
  "numLess a b \<longleftrightarrow>
     fst (rank a) < fst (rank b) \<or> (fst (rank a) = fst (rank b) \<and> snd (rank a) < snd (rank b))"

definition mathMax :: "number list \<Rightarrow> number" where
  "mathMax xs = fold (\<lambda>x highest. if numLess highest x then x else highest) xs (Infinity True)"

record paginationInfo =
  currentPage :: number
  totalPages :: "number option"
  hasNext :: bool
  hasPrevious :: bool

definition currentSelector :: selector where
  "currentSelector =
     [Only [Class ''current''], Only [Class ''active''],
      Only [AttrEq ''aria-current'' (ascii ''page'')]]"

definition pageLinkSelector :: selector where
  "pageLinkSelector =
     [Within [Class ''pagination''] [Tag ''a''], Within [Class ''pager''] [Tag ''a''],
      Within [Class ''page-numbers''] [Tag ''a'']]"

definition previousSelector :: selector where
  "previousSelector =
     [Only [Tag ''a'', AttrEq ''rel'' (ascii ''prev'')], Only [Class ''prev''],
      Only [Class ''previous'']]"

definition getPaginationInfo :: "document \<Rightarrow> paginationInfo" where
  "getPaginationInfo doc =
     (let currentPageEl = querySelector doc currentSelector;
          current =
            (case currentPageEl of
               None \<Rightarrow> Num False 1
             | Some e \<Rightarrow>
                 (let pageNum = parseInt (getElementText doc e)
                  in if \<not> isNaN pageNum then pageNum else Num False 1));
          pageLinks = querySelectorAll doc pageLinkSelector;
          pageNumbers = filter (\<lambda>num. \<not> isNaN num)
                          (map (\<lambda>link. parseInt (getElementText doc link)) pageLinks)
      in \<lparr>currentPage = current,
          totalPages = (if length pageNumbers > 0 then Some (mathMax pageNumbers) else None),
          hasNext = (findNextPage doc \<noteq> None),
          hasPrevious = (querySelector doc previousSelector \<noteq> None)\<rparr>)"

section \<open>Traversal\<close>

text \<open>
  What \<^verbatim>\<open>navigateToNextPage\<close> does to the page is a list of effects. The host decides
  whether a click or an assignment to \<^verbatim>\<open>window.location.href\<close> throws, what
  \<^verbatim>\<open>document.body.scrollHeight\<close> is at each moment, counted in milliseconds from the start
  of the wait (\<open>None\<close> while \<^verbatim>\<open>document.body\<close> is \<^verbatim>\<open>null\<close>, when reading the height
  throws), and by how many milliseconds each firing of an interval timer is late: the
  \<open>k\<close>-th firing of a timer of period \<open>p\<close> happens \<open>k * p\<close> ms after \<^verbatim>\<open>setInterval\<close>, plus
  its lateness. \<^verbatim>\<open>Date.now() - startTime\<close> reads the time since the start of the wait.
\<close>

datatype exn = ClickError | NavigationError | TypeError

datatype effect = Click nat | Navigate jstring | ConsoleError exn

record host =
  clickThrows :: "nat \<Rightarrow> bool"
  navigationThrows :: "jstring \<Rightarrow> bool"
  lateness :: "nat \<Rightarrow> nat"
  heightAt :: "int \<Rightarrow> int option"

definition firingTime :: "host \<Rightarrow> int \<Rightarrow> nat \<Rightarrow> int" where
  "firingTime h period k = int k * period + int (lateness h k)"

definition pollIntervalMs :: int where
  "pollIntervalMs = 100"

definition defaultMaxWait :: int where
  "defaultMaxWait = 5000"

text \<open>
  The callback that \<^verbatim>\<open>waitForNewContent\<close> passes to \<^verbatim>\<open>setInterval(\<dots>, 100)\<close>, run at the
  firings from the \<open>k\<close>-th on. A firing at which reading the height throws leaves the
  promise pending and the timer running. The result is the value the promise resolves
  with, together with the elapsed time read at that firing; it is \<open>None\<close> when the
  promise stays pending for ever.
\<close>

partial_function (option) pollFrom :: "host \<Rightarrow> int \<Rightarrow> int \<Rightarrow> nat \<Rightarrow> (bool \<times> int) option" where
  "pollFrom h initialHeight maxWait k =
     (let elapsed = firingTime h pollIntervalMs k in
      case heightAt h elapsed of
        None \<Rightarrow> pollFrom h initialHeight maxWait (Suc k)
      | Some currentHeight \<Rightarrow>
          if currentHeight > initialHeight then Some (True, elapsed)
          else if elapsed \<ge> maxWait then Some (False, elapsed)
          else pollFrom h initialHeight maxWait (Suc k))"

text \<open>
  \<^verbatim>\<open>waitForNewContent\<close>: \<open>None\<close> while the promise is pending, \<open>Some (Inl TypeError)\<close> when
  reading the initial height throws, \<open>Some (Inr b)\<close> when the promise resolves with \<open>b\<close>.
\<close>

definition waitForNewContent :: "host \<Rightarrow> int \<Rightarrow> (exn + bool) option" where
  "waitForNewContent h maxWait =
     (case heightAt h 0 of
        None \<Rightarrow> Some (Inl TypeError)
      | Some initialHeight \<Rightarrow>
          map_option (\<lambda>(grown, elapsed). Inr grown) (pollFrom h initialHeight maxWait 1))"

text \<open>
  \<^verbatim>\<open>element.click()\<close> followed by \<^verbatim>\<open>await this.waitForNewContent()\<close> and \<^verbatim>\<open>return true\<close>:
  the two click branches of \<^verbatim>\<open>navigateToNextPage\<close> are the same statements. The result
  is \<open>None\<close> while the promise is pending, \<open>Some (Inl x)\<close> when \<open>x\<close> is thrown.
\<close>

definition clickAndWait :: "host \<Rightarrow> nat \<Rightarrow> effect list \<times> (exn + bool) option" where
  "clickAndWait h e =
     (if clickThrows h e then ([Click e], Some (Inl ClickError))
      else
        (case waitForNewContent h defaultMaxWait of
           None \<Rightarrow> ([Click e], None)
         | Some (Inl error) \<Rightarrow> ([Click e], Some (Inl error))
         | Some (Inr grown) \<Rightarrow> ([Click e], Some (Inr True))))"

text \<open>The \<^verbatim>\<open>try\<close> block.\<close>

definition tryBlock :: "host \<Rightarrow> candidate \<Rightarrow> nat \<Rightarrow> effect list \<times> (exn + bool) option" where
  "tryBlock h nextPageInfo e =
     (if isLoadMore nextPageInfo = Some True then clickAndWait h e
      else if truthyV (url nextPageInfo) then
        (if navigationThrows h (toStr (url nextPageInfo)) then ([], Some (Inl NavigationError))
         else ([Navigate (toStr (url nextPageInfo))], Some (Inr True)))
      else clickAndWait h e)"

definition navigateToNextPage :: "host \<Rightarrow> candidate option \<Rightarrow> effect list \<times> (exn + bool) option" where
  "navigateToNextPage h nextPageInfo =
     (case nextPageInfo of
        None \<Rightarrow> ([], Some (Inr False))
      | Some info \<Rightarrow>
          (case element info of
             None \<Rightarrow> ([], Some (Inr False))
           | Some e \<Rightarrow>
               (case tryBlock h info e of
                  (effects, Some (Inl error)) \<Rightarrow> (effects @ [ConsoleError error], Some (Inr False))
                | (effects, r) \<Rightarrow> (effects, r))))"

text \<open>
  The numbered-pagination matcher as the specification words it: only the first
  selector of the list whose container exists is examined.
\<close>

definition findNumberedPagination_spec :: "document \<Rightarrow> candidate option" where
  "findNumberedPagination_spec doc =
     (case List.find (\<lambda>sel. querySelector doc sel \<noteq> None) paginationSelectors of
        None \<Rightarrow> None
      | Some sel \<Rightarrow> numberedIn doc sel)"

text \<open>
  The elements that the infinite-scroll matcher scans as the specification words them:
  buttons, anchors, and elements with the role of a button.
\<close>

definition buttonSelector_spec :: selector where
  "buttonSelector_spec =
     [Only [Tag ''button''], Only [Tag ''a''], Only [AttrEq ''role'' (ascii ''button'')]]"


text \<open>
  The infinite-scroll matcher as the specification words it: the first of these elements,
  in document order, whose lower-cased text contains a load-more phrase.
\<close>

definition findInfiniteScrollButton_spec :: "document \<Rightarrow> candidate option" where
  "findInfiniteScrollButton_spec doc =
     map_option
       (\<lambda>b. let url = getElementUrl doc b in
             \<lparr>element = Some b,
              url = (if truthyV url then url else Str (locationHref doc)),
              type = InfiniteScroll, confidence = 7 / 10,
              clickOnly = None, isLoadMore = Some True\<rparr>)
       (List.find
          (\<lambda>b. list_ex (\<lambda>p. includesStr (toLowerCase (getElementText doc b)) (toLowerCase p))
                 infiniteScrollPatterns)
          (querySelectorAll doc buttonSelector_spec))"
section \<open>Example documents\<close>

text \<open>
  A rendered HTML element: shown, enabled, with a box of 10 by 10; \<^verbatim>\<open>className\<close> is the
  class attribute, \<^verbatim>\<open>href\<close> the given URL or undefined.
\<close>

definition shown :: "string \<Rightarrow> (string \<times> jstring) list \<Rightarrow> nat \<Rightarrow> string \<Rightarrow> string option \<Rightarrow> element" where
  "shown t a d txt h =
     \<lparr>tagName = t, html = True, attrs = a, depth = d, textContent = ascii txt,
      innerText = ascii txt,
      className = Str (case map_of a ''class'' of Some v \<Rightarrow> v | None \<Rightarrow> []),
      href = (case h of Some u \<Rightarrow> Str (ascii u) | None \<Rightarrow> Undefined),
      disabled = False, display = ''inline'',
      visibility = ''visible'', opacity = ''1'', rectWidth = 10, rectHeight = 10\<rparr>"

text \<open>\<^verbatim>\<open><a rel="next" class="next" href="/2">Next</a>\<close> on \<^verbatim>\<open>https://x/1\<close>.\<close>

definition priorityDoc :: document where
  "priorityDoc =
     \<lparr>elements =
        [shown ''a'' [(''rel'', ascii ''next''), (''class'', ascii ''next''), (''href'', ascii ''/2'')]
           0 ''Next'' (Some ''https://x/2'')],
      locationHref = ascii ''https://x/1''\<rparr>"

definition priorityCandidate :: candidate where
  "priorityCandidate =
     \<lparr>element = Some 0, url = Str (ascii ''https://x/2''), type = RelAttribute,
      confidence = 1, clickOnly = None, isLoadMore = None\<rparr>"

text \<open>
  A host on which nothing throws, the timer is on time and the page never grows.
\<close>

definition stalledHost :: host where
  "stalledHost =
     \<lparr>clickThrows = (\<lambda>_. False), navigationThrows = (\<lambda>_. False), lateness = (\<lambda>_. 0),
      heightAt = (\<lambda>_. Some 800)\<rparr>"

text \<open>A host on which the page grows 150 ms after the start of the wait.\<close>

definition growingHost :: host where
  "growingHost =
     \<lparr>clickThrows = (\<lambda>_. False), navigationThrows = (\<lambda>_. False), lateness = (\<lambda>_. 0),
      heightAt = (\<lambda>t. if t < 150 then Some 800 else Some 1400)\<rparr>"

text \<open>A host on which every click and every navigation throws.\<close>

definition throwingHost :: host where
  "throwingHost =
     \<lparr>clickThrows = (\<lambda>_. True), navigationThrows = (\<lambda>_. True), lateness = (\<lambda>_. 0),
      heightAt = (\<lambda>_. Some 800)\<rparr>"

text \<open>A host on which nothing throws but the document has no body.\<close>

definition bodilessHost :: host where
  "bodilessHost =
     \<lparr>clickThrows = (\<lambda>_. False), navigationThrows = (\<lambda>_. False), lateness = (\<lambda>_. 0),
      heightAt = (\<lambda>_. None)\<rparr>"

definition loadMoreCandidate :: candidate where
  "loadMoreCandidate =
     \<lparr>element = Some 0, url = Str (ascii ''https://x/1''), type = InfiniteScroll,
      confidence = 7 / 10, clickOnly = None, isLoadMore = Some True\<rparr>"

definition clickOnlyCandidate :: candidate where
  "clickOnlyCandidate =
     \<lparr>element = Some 0, url = Null, type = TextContent,
      confidence = 9 / 10, clickOnly = Some True, isLoadMore = None\<rparr>"

definition detachedCandidate :: candidate where
  "detachedCandidate =
     \<lparr>element = None, url = Str (ascii ''https://x/2''), type = RelAttribute,
      confidence = 1, clickOnly = None, isLoadMore = None\<rparr>"

text \<open>A lone \<^verbatim>\<open><button>Load More</button>\<close> on \<^verbatim>\<open>https://x/list\<close>.\<close>

definition loadMoreDoc :: document where
  "loadMoreDoc =
     \<lparr>elements = [shown ''button'' [] 0 ''Load More'' None],
      locationHref = ascii ''https://x/list''\<rparr>"

text \<open>
  \<^verbatim>\<open><a class="forward" href="/a">A</a> <a class="next" href="/b">B</a>\<close>: the first link
  matches only the fourth class/id pattern, the second link matches the first pattern.
\<close>

definition forwardNextDoc :: document where
  "forwardNextDoc =
     \<lparr>elements =
        [shown ''a'' [(''class'', ascii ''forward''), (''href'', ascii ''/a'')] 0 ''A'' (Some ''https://x/a''),
         shown ''a'' [(''class'', ascii ''next''), (''href'', ascii ''/b'')] 0 ''B'' (Some ''https://x/b'')],
      locationHref = ascii ''https://x/1''\<rparr>"

text \<open>A lone \<^verbatim>\<open><button style="display:none">Load More</button>\<close>.\<close>

definition hiddenLoadMoreDoc :: document where
  "hiddenLoadMoreDoc =
     \<lparr>elements =
        [(shown ''button'' [] 0 ''Load More'' None)
           \<lparr>display := ''none'', rectWidth := 0, rectHeight := 0\<rparr>],
      locationHref = ascii ''https://x/list''\<rparr>"

text \<open>
  \<^verbatim>\<open><div class="pagination"><a class="current" href="/1">1</a>\<close>
  \<^verbatim>\<open><a href="/2" style="visibility:hidden">2</a></div>\<close>.
\<close>

definition hiddenNumberedDoc :: document where
  "hiddenNumberedDoc =
     \<lparr>elements =
        [shown ''div'' [(''class'', ascii ''pagination'')] 0 ''12'' None,
         shown ''a'' [(''class'', ascii ''current''), (''href'', ascii ''/1'')] 1 ''1'' (Some ''https://x/1''),
         (shown ''a'' [(''href'', ascii ''/2'')] 1 ''2'' (Some ''https://x/2''))
           \<lparr>visibility := ''hidden''\<rparr>],
      locationHref = ascii ''https://x/1''\<rparr>"

text \<open>
  \<^verbatim>\<open><div class="pagination">\<close> with the links 1 to 5, the link 3 carrying the class
  \<^verbatim>\<open>current\<close>.
\<close>

definition numberedDoc :: document where
  "numberedDoc =
     \<lparr>elements =
        [shown ''div'' [(''class'', ascii ''pagination'')] 0 ''12345'' None,
         shown ''a'' [(''href'', ascii ''/1'')] 1 ''1'' (Some ''https://x/1''),
         shown ''a'' [(''href'', ascii ''/2'')] 1 ''2'' (Some ''https://x/2''),
         shown ''a'' [(''href'', ascii ''/3''), (''class'', ascii ''current'')] 1 ''3'' (Some ''https://x/3''),
         shown ''a'' [(''href'', ascii ''/4'')] 1 ''4'' (Some ''https://x/4''),
         shown ''a'' [(''href'', ascii ''/5'')] 1 ''5'' (Some ''https://x/5'')],
      locationHref = ascii ''https://x/3''\<rparr>"

definition numberedCandidate :: candidate where
  "numberedCandidate =
     \<lparr>element = Some 4, url = Str (ascii ''https://x/4''), type = NumberedPagination,
      confidence = 95 / 100, clickOnly = None, isLoadMore = None\<rparr>"

text \<open>
  A \<^verbatim>\<open><div class="pagination">\<close> whose two links carry no mark of the current page,
  followed by a \<^verbatim>\<open><div class="pager">\<close> with the links 2 (class \<^verbatim>\<open>current\<close>) and 3.
\<close>

definition twoContainersDoc :: document where
  "twoContainersDoc =
     \<lparr>elements =
        [shown ''div'' [(''class'', ascii ''pagination'')] 0 ''12'' None,
         shown ''a'' [(''href'', ascii ''/1'')] 1 ''1'' (Some ''https://x/1''),
         shown ''a'' [(''href'', ascii ''/2'')] 1 ''2'' (Some ''https://x/2''),
         shown ''div'' [(''class'', ascii ''pager'')] 0 ''23'' None,
         shown ''a'' [(''href'', ascii ''/2''), (''class'', ascii ''current'')] 1 ''2'' (Some ''https://x/2''),
         shown ''a'' [(''href'', ascii ''/3'')] 1 ''3'' (Some ''https://x/3'')],
      locationHref = ascii ''https://x/2''\<rparr>"

text \<open>
  \<^verbatim>\<open><div class="pagination">\<close> with the links 1, 2 and 3, the link 2 carrying the class
  \<^verbatim>\<open>current\<close>.
\<close>

definition threePagesDoc :: document where
  "threePagesDoc =
     \<lparr>elements =
        [shown ''div'' [(''class'', ascii ''pagination'')] 0 ''123'' None,
         shown ''a'' [(''href'', ascii ''/1'')] 1 ''1'' (Some ''https://x/1''),
         shown ''a'' [(''href'', ascii ''/2''), (''class'', ascii ''current'')] 1 ''2'' (Some ''https://x/2''),
         shown ''a'' [(''href'', ascii ''/3'')] 1 ''3'' (Some ''https://x/3'')],
      locationHref = ascii ''https://x/2''\<rparr>"

text \<open>
  Twice \<^verbatim>\<open><a rel="next" class="next" aria-label="Next" href="/2">Next</a>\<close>, the first
  one styled \<^verbatim>\<open>visibility:hidden\<close>.
\<close>

definition skipDoc :: document where
  "skipDoc =
     \<lparr>elements =
        [(shown ''a'' [(''rel'', ascii ''next''), (''class'', ascii ''next''),
                       (''aria-label'', ascii ''Next''), (''href'', ascii ''/2'')]
            0 ''Next'' (Some ''https://x/2''))
           \<lparr>visibility := ''hidden''\<rparr>,
         shown ''a'' [(''rel'', ascii ''next''), (''class'', ascii ''next''),
                      (''aria-label'', ascii ''Next''), (''href'', ascii ''/2'')]
            0 ''Next'' (Some ''https://x/2'')],
      locationHref = ascii ''https://x/1''\<rparr>"

text \<open>
  \<^verbatim>\<open><a class="forward" href="/a">A</a>\<close> followed by
  \<^verbatim>\<open><a class="next" href="/b" style="display:none">B</a>\<close>.
\<close>

definition forwardHiddenNextDoc :: document where
  "forwardHiddenNextDoc =
     \<lparr>elements =
        [shown ''a'' [(''class'', ascii ''forward''), (''href'', ascii ''/a'')] 0 ''A'' (Some ''https://x/a''),
         (shown ''a'' [(''class'', ascii ''next''), (''href'', ascii ''/b'')] 0 ''B'' (Some ''https://x/b''))
           \<lparr>display := ''none'', rectWidth := 0, rectHeight := 0\<rparr>],
      locationHref = ascii ''https://x/1''\<rparr>"

text \<open>A lone \<^verbatim>\<open><a onclick="more()">Load More</a>\<close>: an anchor without \<^verbatim>\<open>href\<close>.\<close>

definition anchorNoHrefDoc :: document where
  "anchorNoHrefDoc =
     \<lparr>elements = [shown ''a'' [(''onclick'', ascii ''more()'')] 0 ''Load More'' None],
      locationHref = ascii ''https://x/list''\<rparr>"

text \<open>
  An SVG \<^verbatim>\<open><a class="next" href="/2">\<close>: its \<^verbatim>\<open>className\<close> and \<^verbatim>\<open>href\<close> are objects.
\<close>

definition svgNextDoc :: document where
  "svgNextDoc =
     \<lparr>elements =
        [(shown ''a'' [(''class'', ascii ''next''), (''href'', ascii ''/2'')] 0 ''2'' None)
           \<lparr>html := False, className := Obj ''SVGAnimatedString'',
            href := Obj ''SVGAnimatedString''\<rparr>],
      locationHref = ascii ''https://x/1''\<rparr>"

section \<open>Evaluation\<close>

lemmas str_defs = ascii_def isJsSpace_def isLineTerminator_def isDigit_def trim_def lowerUnit_def
  toLowerCase_def canonUnit_def includesStr_def test_def rxI_def rxS_def rxFull_def word_def

lemmas dom_defs = el_def getAttribute_def hasAttribute_def idOf_def isAsciiSpace_def
  classListContains_def asciiLower_def descendants_def ancestors_def matchesSel_def
  querySelectorAll_def querySelector_def querySelectorAllIn_def getElementById_def

lemmas ext_defs = isValidNextPageElement_def truthy_def orElse_def orEmpty_def getElementText_def
  onclickPrefix_def groupAt_def onclickUrl_def getElementUrl_def

section \<open>Loops and queries\<close>

lemma firstSome_find:
  "firstSome (\<lambda>x. if P x then Some (g x) else None) xs = map_option g (List.find P xs)"
  by (induction xs) auto

lemma firstSome_guarded:
  "firstSome (\<lambda>p. if T p then (if V then Some c else None) else None) ps
     = (if V \<and> list_ex T ps then Some c else None)"
  by (induction ps) auto

lemma firstSome_Some: "firstSome f xs = Some y \<Longrightarrow> \<exists>x \<in> set xs. f x = Some y"
  by (induction xs) (auto split: option.splits)

lemma firstSome_None: "firstSome f xs = None \<longleftrightarrow> (\<forall>x \<in> set xs. f x = None)"
  by (induction xs) (auto split: option.splits)

lemma firstSome_nth:
  "k < length xs \<Longrightarrow> \<forall>j<k. f (xs ! j) = None \<Longrightarrow> f (xs ! k) = Some y \<Longrightarrow> firstSome f xs = Some y"
proof (induction xs arbitrary: k)
  case Nil
  then show ?case by simp
next
  case (Cons x xs)
  show ?case
  proof (cases k)
    case 0
    with Cons.prems show ?thesis by simp
  next
    case (Suc m)
    with Cons.prems have "f x = None" by auto
    moreover from Suc Cons.prems have "firstSome f xs = Some y"
      by (intro Cons.IH [of m]) auto
    ultimately show ?thesis by simp
  qed
qed

lemma firstSome_split:
  "firstSome f xs = Some y \<Longrightarrow>
     \<exists>pre x post. xs = pre @ x # post \<and> (\<forall>z \<in> set pre. f z = None) \<and> f x = Some y"
proof (induction xs)
  case Nil
  then show ?case by simp
next
  case (Cons a xs)
  show ?case
  proof (cases "f a")
    case None
    with Cons.prems have "firstSome f xs = Some y" by simp
    from Cons.IH [OF this] obtain pre x post where
      "xs = pre @ x # post" "\<forall>z \<in> set pre. f z = None" "f x = Some y" by blast
    with None have "a # xs = (a # pre) @ x # post \<and> (\<forall>z \<in> set (a # pre). f z = None) \<and> f x = Some y"
      by simp
    then show ?thesis by blast
  next
    case (Some v)
    with Cons.prems have "a # xs = [] @ a # xs \<and> (\<forall>z \<in> set []. f z = None) \<and> f a = Some y"
      by simp
    then show ?thesis by blast
  qed
qed

lemma find_first_sorted:
  fixes e :: nat
  shows "sorted xs \<Longrightarrow> e \<in> set xs \<Longrightarrow> P e \<Longrightarrow> \<forall>x \<in> set xs. x < e \<longrightarrow> \<not> P x \<Longrightarrow>
     List.find P xs = Some e"
proof (induction xs)
  case Nil
  then show ?case by simp
next
  case (Cons a xs)
  show ?case
  proof (cases "a = e")
    case True
    with Cons.prems show ?thesis by simp
  next
    case False
    with Cons.prems have "e \<in> set xs" and "a \<le> e" by auto
    with False have "a < e" by simp
    with Cons.prems have "\<not> P a" by simp
    moreover from Cons.prems \<open>e \<in> set xs\<close> have "List.find P xs = Some e"
      by (intro Cons.IH) auto
    ultimately show ?thesis by simp
  qed
qed

lemma querySelectorAll_sorted: "sorted (querySelectorAll doc sel)"
  by (simp add: querySelectorAll_def sorted_wrt_filter)

lemma querySelectorAll_iff:
  "i \<in> set (querySelectorAll doc sel) \<longleftrightarrow> i < length (elements doc) \<and> matchesSel doc sel i"
  by (auto simp: querySelectorAll_def)

lemma includesStr_iff: "includesStr s p \<longleftrightarrow> (\<exists>pre post. s = pre @ p @ post)"
proof -
  have suf: "t \<in> set (suffixesOf s) \<longleftrightarrow> (\<exists>pre. s = pre @ t)" for t :: jstring and s
  proof (induction s)
    case Nil
    then show ?case by simp
  next
    case (Cons a s)
    then show ?case by (auto simp: Cons_eq_append_conv)
  qed
  have pre: "take (length p) t = p \<longleftrightarrow> (\<exists>post. t = p @ post)" for t
    by (metis append_eq_conv_conj append_take_drop_id)
  show ?thesis
    unfolding includesStr_def list_ex_iff
    using suf pre by (metis (no_types, lifting))
qed

lemma onclickUrl_nonempty: "onclickUrl s = Some u \<Longrightarrow> u \<noteq> []"
proof -
  assume "onclickUrl s = Some u"
  then obtain t where "groupAt t = Some u"
    unfolding onclickUrl_def by (blast dest: firstSome_Some)
  then obtain r where
    "(let g = takeWhile (inCls NotQuote) r
      in if g \<noteq> [] \<and> length g < length r then Some g else None) = Some u"
    unfolding groupAt_def by (blast dest: firstSome_Some)
  then show ?thesis by (auto simp: Let_def split: if_splits)
qed

lemma getElementUrl_truthy: "truthyV (getElementUrl doc i) \<longleftrightarrow> getElementUrl doc i \<noteq> Null"
  by (auto simp: getElementUrl_def Let_def truthy_def orElse_def orEmpty_def
      split: if_splits option.splits dest: onclickUrl_nonempty)

lemma findNextPage_unfold:
  "findNextPage doc =
     (case findByRelAttribute doc of Some c \<Rightarrow> Some c | None \<Rightarrow>
     (case findByTextContent doc of Some c \<Rightarrow> Some c | None \<Rightarrow>
     (case findByClassId doc of Some c \<Rightarrow> Some c | None \<Rightarrow>
     (case findByAriaLabel doc of Some c \<Rightarrow> Some c | None \<Rightarrow>
     (case findNumberedPagination doc of Some c \<Rightarrow> Some c | None \<Rightarrow>
        findInfiniteScrollButton doc)))))"
  by (simp add: findNextPage_def methods_def split: option.splits)

lemma firstSome_find2:
  "firstSome (\<lambda>x. if A x then (if B x then Some (g x) else None) else None) xs
     = map_option g (List.find (\<lambda>x. A x \<and> B x) xs)"
  by (induction xs) auto

lemma url_or_null [simp]:
  "(if truthyV (getElementUrl doc e) then getElementUrl doc e else Null) = getElementUrl doc e"
  using getElementUrl_truthy [of doc e] by auto

lemma findIndex_ge: "- 1 \<le> findIndex P xs"
  by (induction xs) (auto simp: Let_def)

lemma findIndex_first:
  "findIndex P xs = int k \<longleftrightarrow> k < length xs \<and> P (xs ! k) \<and> (\<forall>j<k. \<not> P (xs ! j))"
proof (induction xs arbitrary: k)
  case Nil
  then show ?case by simp
next
  case (Cons x xs)
  show ?case
  proof (cases "P x")
    case True
    then show ?thesis by (cases k) auto
  next
    case False
    show ?thesis
    proof (cases k)
      case 0
      with False findIndex_ge [of P xs] show ?thesis by (auto simp: Let_def)
    next
      case (Suc m)
      have "findIndex P (x # xs) = int (Suc m) \<longleftrightarrow> findIndex P xs = int m"
        using False findIndex_ge [of P xs] by (auto simp: Let_def)
      also have "\<dots> \<longleftrightarrow> m < length xs \<and> P (xs ! m) \<and> (\<forall>j<m. \<not> P (xs ! j))"
        by (rule Cons.IH)
      also have "\<dots> \<longleftrightarrow> Suc m < length (x # xs) \<and> P ((x # xs) ! Suc m) \<and> (\<forall>j<Suc m. \<not> P ((x # xs) ! j))"
        using False by (auto simp: less_Suc_eq_0_disj)
      finally show ?thesis using Suc by simp
    qed
  qed
qed

lemma dropsFrom_set: "set (dropsFrom n s) = (\<lambda>k. drop k s) ` {0..n}"
proof (induction n)
  case 0
  then show ?case by simp
next
  case (Suc n)
  have "{0..Suc n} = insert (Suc n) {0..n}" by auto
  with Suc show ?case by simp
qed

lemma dropsFrom_last: "dropsFrom n s = map (\<lambda>k. drop k s) (rev [1..<Suc n]) @ [s]"
  by (induction n) auto

lemma test_digits: "test (rxFull (Plus Digit)) s \<longleftrightarrow> s \<noteq> [] \<and> list_all isDigit s"
proof -
  let ?n = "length (takeWhile isDigit s)"
  have "butlast (dropsFrom ?n s) = map (\<lambda>k. drop k s) (rev [1..<Suc ?n])"
    by (simp add: dropsFrom_last)
  then have "[] \<in> set (butlast (dropsFrom ?n s)) \<longleftrightarrow> (\<exists>k. 1 \<le> k \<and> k \<le> ?n \<and> drop k s = [])"
    by auto
  also have "\<dots> \<longleftrightarrow> s \<noteq> [] \<and> ?n = length s"
  proof
    assume "\<exists>k. 1 \<le> k \<and> k \<le> ?n \<and> drop k s = []"
    then obtain k where k: "1 \<le> k" "k \<le> ?n" "length s \<le> k" by auto
    moreover have "?n \<le> length s" by (rule length_takeWhile_le)
    ultimately show "s \<noteq> [] \<and> ?n = length s" by auto
  next
    assume "s \<noteq> [] \<and> ?n = length s"
    then have "1 \<le> length s \<and> length s \<le> ?n \<and> drop (length s) s = []"
      by (cases s) auto
    then show "\<exists>k. 1 \<le> k \<and> k \<le> ?n \<and> drop k s = []" by blast
  qed
  also have "?n = length s \<longleftrightarrow> list_all isDigit s"
    by (metis takeWhile_eq_all_conv list_all_iff length_append
        takeWhile_dropWhile_id add_cancel_right_right length_0_conv dropWhile_eq_Nil_conv)
  finally have r: "[] \<in> set (butlast (dropsFrom ?n s)) \<longleftrightarrow> s \<noteq> [] \<and> list_all isDigit s" .
  have "inCls Digit = isDigit" by (rule ext) simp
  with r show ?thesis
    by (simp add: test_def rxFull_def)
qed

lemma numberedIn_Some_iff:
  "numberedIn doc sel = Some c \<longleftrightarrow>
     (\<exists>container k.
        querySelector doc sel = Some container
        \<and> Suc k < length (querySelectorAllIn doc container linkSelector)
        \<and> isCurrentLink doc (querySelectorAllIn doc container linkSelector ! k)
        \<and> (\<forall>j<k. \<not> isCurrentLink doc (querySelectorAllIn doc container linkSelector ! j))
        \<and> (test (rxFull (Plus Digit))
              (getElementText doc (querySelectorAllIn doc container linkSelector ! Suc k))
            \<or> test nextIndicator
              (getElementText doc (querySelectorAllIn doc container linkSelector ! Suc k)))
        \<and> c = \<lparr>element = Some (querySelectorAllIn doc container linkSelector ! Suc k),
                 url = href (el doc (querySelectorAllIn doc container linkSelector ! Suc k)),
                 type = NumberedPagination, confidence = 95 / 100,
                 clickOnly = None, isLoadMore = None\<rparr>)"
proof (cases "querySelector doc sel")
  case None
  then show ?thesis by (simp add: numberedIn_def)
next
  case (Some container)
  let ?links = "querySelectorAllIn doc container linkSelector"
  let ?idx = "findIndex (isCurrentLink doc) ?links"
  let ?ok = "\<lambda>k. test (rxFull (Plus Digit)) (getElementText doc (?links ! Suc k))
                \<or> test nextIndicator (getElementText doc (?links ! Suc k))"
  let ?cand = "\<lambda>k. \<lparr>element = Some (?links ! Suc k), url = href (el doc (?links ! Suc k)),
                 type = NumberedPagination, confidence = 95 / 100,
                 clickOnly = None, isLoadMore = None\<rparr>"
  have step: "numberedIn doc sel =
      (if 0 \<le> ?idx \<and> ?idx < int (length ?links) - 1 then
         (if ?ok (nat ?idx) then Some (?cand (nat ?idx)) else None)
       else None)"
    using Some by (simp add: numberedIn_def Let_def nat_add_distrib)
  show ?thesis
  proof
    assume a: "numberedIn doc sel = Some c"
    with step have b: "0 \<le> ?idx" "?idx < int (length ?links) - 1" "?ok (nat ?idx)"
      "c = ?cand (nat ?idx)"
      by (auto split: if_splits)
    define k where "k = nat ?idx"
    with b have idx: "?idx = int k" by simp
    then have "k < length ?links \<and> isCurrentLink doc (?links ! k)
               \<and> (\<forall>j<k. \<not> isCurrentLink doc (?links ! j))"
      by (simp add: findIndex_first)
    moreover from b idx have "Suc k < length ?links" by simp
    ultimately show "\<exists>container k. querySelector doc sel = Some container
        \<and> Suc k < length (querySelectorAllIn doc container linkSelector)
        \<and> isCurrentLink doc (querySelectorAllIn doc container linkSelector ! k)
        \<and> (\<forall>j<k. \<not> isCurrentLink doc (querySelectorAllIn doc container linkSelector ! j))
        \<and> (test (rxFull (Plus Digit))
              (getElementText doc (querySelectorAllIn doc container linkSelector ! Suc k))
            \<or> test nextIndicator
              (getElementText doc (querySelectorAllIn doc container linkSelector ! Suc k)))
        \<and> c = \<lparr>element = Some (querySelectorAllIn doc container linkSelector ! Suc k),
                 url = href (el doc (querySelectorAllIn doc container linkSelector ! Suc k)),
                 type = NumberedPagination, confidence = 95 / 100,
                 clickOnly = None, isLoadMore = None\<rparr>"
      using Some b k_def by blast
  next
    assume "\<exists>container k. querySelector doc sel = Some container
        \<and> Suc k < length (querySelectorAllIn doc container linkSelector)
        \<and> isCurrentLink doc (querySelectorAllIn doc container linkSelector ! k)
        \<and> (\<forall>j<k. \<not> isCurrentLink doc (querySelectorAllIn doc container linkSelector ! j))
        \<and> (test (rxFull (Plus Digit))
              (getElementText doc (querySelectorAllIn doc container linkSelector ! Suc k))
            \<or> test nextIndicator
              (getElementText doc (querySelectorAllIn doc container linkSelector ! Suc k)))
        \<and> c = \<lparr>element = Some (querySelectorAllIn doc container linkSelector ! Suc k),
                 url = href (el doc (querySelectorAllIn doc container linkSelector ! Suc k)),
                 type = NumberedPagination, confidence = 95 / 100,
                 clickOnly = None, isLoadMore = None\<rparr>"
    with Some obtain k where k: "Suc k < length ?links" "isCurrentLink doc (?links ! k)"
      "\<forall>j<k. \<not> isCurrentLink doc (?links ! j)" "?ok k" "c = ?cand k"
      by auto
    then have "?idx = int k" by (simp add: findIndex_first)
    with k step show "numberedIn doc sel = Some c" by simp
  qed
qed

lemma firstSome_append:
  "firstSome f (xs @ ys) = (case firstSome f xs of Some y \<Rightarrow> Some y | None \<Rightarrow> firstSome f ys)"
  by (induction xs) (auto split: option.splits)

lemma suffixesOf_iff: "t \<in> set (suffixesOf s) \<longleftrightarrow> (\<exists>pre. s = pre @ t)"
proof (induction s)
  case Nil
  then show ?case by simp
next
  case (Cons a s)
  then show ?case by (auto simp: Cons_eq_append_conv)
qed

lemma search_Lit:
  "list_ex (\<lambda>t. matchAt i (Lit l) t \<noteq> []) (suffixesOf s) \<longleftrightarrow>
     (\<exists>pre m post. s = pre @ m @ post \<and> map (canonUnit i) m = map (canonUnit i) l)"
proof
  assume "list_ex (\<lambda>t. matchAt i (Lit l) t \<noteq> []) (suffixesOf s)"
  then obtain t where t: "t \<in> set (suffixesOf s)" "length l \<le> length t"
    "map (canonUnit i) (take (length l) t) = map (canonUnit i) l"
    by (auto simp: list_ex_iff split: if_splits)
  from t(1) obtain pre where "s = pre @ t" by (auto simp: suffixesOf_iff)
  then have "s = pre @ take (length l) t @ drop (length l) t" by simp
  with t(3) show "\<exists>pre m post. s = pre @ m @ post \<and> map (canonUnit i) m = map (canonUnit i) l"
    by blast
next
  assume "\<exists>pre m post. s = pre @ m @ post \<and> map (canonUnit i) m = map (canonUnit i) l"
  then obtain pre m post where a: "s = pre @ m @ post" "map (canonUnit i) m = map (canonUnit i) l"
    by blast
  from a(2) have len: "length m = length l" by (metis length_map)
  from a(1) have "m @ post \<in> set (suffixesOf s)" by (auto simp: suffixesOf_iff)
  moreover from a(2) len have "matchAt i (Lit l) (m @ post) \<noteq> []" by simp
  ultimately have "\<exists>t \<in> set (suffixesOf s). matchAt i (Lit l) t \<noteq> []" by (rule bexI [rotated])
  then show "list_ex (\<lambda>t. matchAt i (Lit l) t \<noteq> []) (suffixesOf s)"
    by (simp only: list_ex_iff)
qed

lemma contains_unit:
  assumes "\<And>x. canonUnit i x = canonUnit i g \<longleftrightarrow> x = g"
  shows "(\<exists>pre m post. s = pre @ m @ post \<and> map (canonUnit i) m = map (canonUnit i) [g])
           \<longleftrightarrow> g \<in> set s"
proof
  assume "\<exists>pre m post. s = pre @ m @ post \<and> map (canonUnit i) m = map (canonUnit i) [g]"
  then obtain pre m post where a: "s = pre @ m @ post"
    "map (canonUnit i) m = map (canonUnit i) [g]"
    by blast
  from a(2) have "\<exists>x. m = [x] \<and> canonUnit i x = canonUnit i g" by (cases m) auto
  with assms have "m = [g]" by auto
  with a(1) show "g \<in> set s" by simp
next
  assume "g \<in> set s"
  then obtain pre post where "s = pre @ g # post" by (auto simp: in_set_conv_decomp)
  then have "s = pre @ [g] @ post \<and> map (canonUnit i) [g] = map (canonUnit i) [g]" by simp
  then show "\<exists>pre m post. s = pre @ m @ post \<and> map (canonUnit i) m = map (canonUnit i) [g]"
    by blast
qed

lemma test_nextIndicator:
  "test nextIndicator s \<longleftrightarrow>
     (\<exists>pre m post. s = pre @ m @ post \<and> map (canonUnit True) m = ascii ''NEXT'')
     \<or> 8250 \<in> set s \<or> 8594 \<in> set s \<or> 187 \<in> set s"
proof -
  have alt: "list_ex (\<lambda>t. matchAt i (Alt a b) t \<noteq> []) ts \<longleftrightarrow>
               list_ex (\<lambda>t. matchAt i a t \<noteq> []) ts \<or> list_ex (\<lambda>t. matchAt i b t \<noteq> []) ts"
    for i a b ts
    by (auto simp: list_ex_iff)
  have g1: "canonUnit True x = canonUnit True 8250 \<longleftrightarrow> x = 8250" for x
    by (auto simp: canonUnit_def)
  have g2: "canonUnit True x = canonUnit True 8594 \<longleftrightarrow> x = 8594" for x
    by (auto simp: canonUnit_def)
  have g3: "canonUnit True x = canonUnit True 187 \<longleftrightarrow> x = 187" for x
    by (auto simp: canonUnit_def)
  have up: "map (canonUnit True) (ascii ''next'') = ascii ''NEXT''"
    by (simp add: ascii_def canonUnit_def)
  have "test nextIndicator s \<longleftrightarrow>
          list_ex (\<lambda>t. matchAt True
             (Alt (Lit (ascii ''next'')) (Alt (Lit [8250]) (Alt (Lit [8594]) (Lit [187])))) t \<noteq> [])
            (suffixesOf s)"
    by (simp add: test_def nextIndicator_def rxI_def word_def del: matchAt.simps)
  also have "\<dots> \<longleftrightarrow>
     (\<exists>pre m post. s = pre @ m @ post \<and> map (canonUnit True) m = ascii ''NEXT'')
     \<or> 8250 \<in> set s \<or> 8594 \<in> set s \<or> 187 \<in> set s"
    unfolding alt search_Lit contains_unit [OF g1] contains_unit [OF g2] contains_unit [OF g3] up
    by (rule refl)
  finally show ?thesis .
qed

lemma first_of_filter:
  "(case filter P xs of [] \<Rightarrow> None | x # _ \<Rightarrow> Some x) = List.find P xs"
  by (induction xs) auto

lemma querySelector_find:
  "querySelector doc sel = List.find (matchesSel doc sel) [0..<length (elements doc)]"
  by (simp add: querySelector_def querySelectorAll_def first_of_filter)

lemma querySelector_None_iff:
  "querySelector doc sel = None \<longleftrightarrow> (\<forall>i<length (elements doc). \<not> matchesSel doc sel i)"
  by (auto simp: querySelector_find find_None_iff)

lemma querySelector_Some_iff:
  "querySelector doc sel = Some e \<longleftrightarrow>
     e < length (elements doc) \<and> matchesSel doc sel e \<and> (\<forall>j<e. \<not> matchesSel doc sel j)"
  by (auto simp: querySelector_find find_Some_iff)

lemma numLess_irrefl: "\<not> numLess a a"
  by (simp add: numLess_def)

lemma numLess_asym: "numLess a b \<Longrightarrow> \<not> numLess b a"
  by (auto simp: numLess_def)

lemma not_numLess_trans: "\<not> numLess a b \<Longrightarrow> \<not> numLess b c \<Longrightarrow> \<not> numLess a c"
  by (auto simp: numLess_def)

lemma not_below_minus_infinity: "x \<noteq> NaN \<Longrightarrow> \<not> numLess (Infinity True) x \<Longrightarrow> x = Infinity True"
proof (cases x)
  case NaN
  assume "x \<noteq> NaN"
  with NaN show ?thesis by simp
next
  case (Num s m)
  assume "\<not> numLess (Infinity True) x"
  with Num show ?thesis by (cases s) (simp_all add: numLess_def)
next
  case (Infinity s)
  assume "\<not> numLess (Infinity True) x"
  with Infinity show ?thesis by (cases s) (simp_all add: numLess_def)
qed

lemma fold_highest:
  "fold (\<lambda>x highest. if numLess highest x then x else highest) xs acc \<in> insert acc (set xs)
   \<and> \<not> numLess (fold (\<lambda>x highest. if numLess highest x then x else highest) xs acc) acc
   \<and> (\<forall>x \<in> set xs. \<not> numLess (fold (\<lambda>x highest. if numLess highest x then x else highest) xs acc) x)"
proof (induction xs arbitrary: acc)
  case Nil
  then show ?case by (simp add: numLess_irrefl)
next
  case (Cons a xs)
  let ?f = "\<lambda>x highest. if numLess highest x then x else highest"
  let ?acc = "if numLess acc a then a else acc"
  let ?r = "fold ?f xs ?acc"
  from Cons.IH [of ?acc]
  have ih: "?r \<in> insert ?acc (set xs)" "\<not> numLess ?r ?acc" "\<forall>x \<in> set xs. \<not> numLess ?r x"
    by blast+
  have a1: "\<not> numLess ?acc acc" by (simp add: numLess_irrefl numLess_asym)
  have a2: "\<not> numLess ?acc a" by (simp add: numLess_irrefl)
  from ih(2) a1 have "\<not> numLess ?r acc" by (rule not_numLess_trans)
  moreover from ih(2) a2 have "\<not> numLess ?r a" by (rule not_numLess_trans)
  moreover from ih(1) have "?r \<in> insert acc (set (a # xs))" by (auto split: if_splits)
  ultimately show ?case using ih(3) by simp
qed

lemma mathMax_greatest: "\<forall>x \<in> set xs. \<not> numLess (mathMax xs) x"
  using fold_highest [of xs "Infinity True"] by (simp add: mathMax_def)

lemma mathMax_member:
  assumes "xs \<noteq> []" and "NaN \<notin> set xs"
  shows "mathMax xs \<in> set xs"
proof (rule ccontr)
  assume out: "mathMax xs \<notin> set xs"
  from fold_highest [of xs "Infinity True"] have "mathMax xs \<in> insert (Infinity True) (set xs)"
    by (simp add: mathMax_def)
  with out have m: "mathMax xs = Infinity True" by auto
  from assms(1) obtain x where x: "x \<in> set xs" by (cases xs) auto
  with assms(2) have "x \<noteq> NaN" by auto
  moreover from x mathMax_greatest [of xs] m have "\<not> numLess (Infinity True) x" by auto
  ultimately have "x = Infinity True" by (rule not_below_minus_infinity)
  with x m out show False by simp
qed

section \<open>The cascade\<close>

lemma priorityDoc_rel: "findByRelAttribute priorityDoc = Some priorityCandidate"
  by (simp add: priorityDoc_def priorityCandidate_def shown_def findByRelAttribute_def relSelector_def
      relPatterns_def dom_defs str_defs ext_defs)

lemma priorityDoc_text: "findByTextContent priorityDoc \<noteq> None"
  by (simp add: priorityDoc_def shown_def findByTextContent_def clickableSelector_def
      textPatterns_def dom_defs str_defs ext_defs)

lemma priorityDoc_classId: "findByClassId priorityDoc \<noteq> None"
  by (simp add: priorityDoc_def shown_def findByClassId_def clickableSelector_def
      classIdOf_def classIdPatterns_def dom_defs str_defs ext_defs)

text \<open>
  C1. \<^verbatim>\<open>findNextPage\<close> calls the six matchers in the order rel attribute, text content,
  class/id, ARIA label, numbered pagination, infinite scroll, and returns the first
  result that is not null; the matchers after that one are not called. So a candidate of
  the rel-attribute matcher is the result whatever the other matchers would find, and a
  call yields one candidate or none.
\<close>

theorem findNextPage_cascade:
  "findNextPage doc =
     (case findByRelAttribute doc of Some c \<Rightarrow> Some c | None \<Rightarrow>
     (case findByTextContent doc of Some c \<Rightarrow> Some c | None \<Rightarrow>
     (case findByClassId doc of Some c \<Rightarrow> Some c | None \<Rightarrow>
     (case findByAriaLabel doc of Some c \<Rightarrow> Some c | None \<Rightarrow>
     (case findNumberedPagination doc of Some c \<Rightarrow> Some c | None \<Rightarrow>
        findInfiniteScrollButton doc)))))
   \<and> methodsCalled doc =
     (if findByRelAttribute doc \<noteq> None then 1
      else if findByTextContent doc \<noteq> None then 2
      else if findByClassId doc \<noteq> None then 3
      else if findByAriaLabel doc \<noteq> None then 4
      else if findNumberedPagination doc \<noteq> None then 5
      else 6)
   \<and> (findByRelAttribute doc = Some c \<longrightarrow> findNextPage doc = Some c \<and> methodsCalled doc = 1)"
  by (simp add: findNextPage_def methodsCalled_def methods_def split: option.splits)

theorem findNextPage_cascade_witness:
  "findByRelAttribute priorityDoc = Some priorityCandidate
   \<and> findByTextContent priorityDoc \<noteq> None
   \<and> findByClassId priorityDoc \<noteq> None
   \<and> findNextPage priorityDoc = Some priorityCandidate
   \<and> methodsCalled priorityDoc = 1"
  using findNextPage_cascade [of priorityDoc priorityCandidate]
    priorityDoc_rel priorityDoc_text priorityDoc_classId
  by simp

section \<open>The content wait\<close>

lemma pollFrom_next:
  assumes "\<forall>c. heightAt h (firingTime h pollIntervalMs k) = Some c \<longrightarrow>
             c \<le> i \<and> firingTime h pollIntervalMs k < mw"
  shows "pollFrom h i mw k = pollFrom h i mw (Suc k)"
  using assms by (subst pollFrom.simps) (auto simp: Let_def split: option.splits)

lemma pollFrom_here:
  assumes "heightAt h (firingTime h pollIntervalMs k) = Some c"
    and "i < c \<or> mw \<le> firingTime h pollIntervalMs k"
  shows "pollFrom h i mw k = Some (i < c, firingTime h pollIntervalMs k)"
  using assms by (subst pollFrom.simps) (auto simp: Let_def)

lemma pollFrom_run_add:
  assumes "\<forall>j. start \<le> j \<and> j < start + n \<longrightarrow>
           (\<forall>c. heightAt h (firingTime h pollIntervalMs j) = Some c \<longrightarrow>
              c \<le> i \<and> firingTime h pollIntervalMs j < mw)"
  shows "pollFrom h i mw start = pollFrom h i mw (start + n)"
  using assms
proof (induction n)
  case 0
  show ?case by simp
next
  case (Suc n)
  from Suc.prems have earlier: "\<forall>j. start \<le> j \<and> j < start + n \<longrightarrow>
           (\<forall>c. heightAt h (firingTime h pollIntervalMs j) = Some c \<longrightarrow>
              c \<le> i \<and> firingTime h pollIntervalMs j < mw)"
    by (metis add_Suc_right less_SucI)
  from Suc.prems have last: "\<forall>c. heightAt h (firingTime h pollIntervalMs (start + n)) = Some c \<longrightarrow>
              c \<le> i \<and> firingTime h pollIntervalMs (start + n) < mw"
    by (metis add_Suc_right le_add1 lessI)
  from earlier have "pollFrom h i mw start = pollFrom h i mw (start + n)"
    by (rule Suc.IH)
  also from last have "\<dots> = pollFrom h i mw (Suc (start + n))"
    by (rule pollFrom_next)
  finally show ?case by simp
qed

lemma pollFrom_run:
  assumes "start \<le> k"
    and "\<forall>j. start \<le> j \<and> j < k \<longrightarrow>
           (\<forall>c. heightAt h (firingTime h pollIntervalMs j) = Some c \<longrightarrow>
              c \<le> i \<and> firingTime h pollIntervalMs j < mw)"
  shows "pollFrom h i mw start = pollFrom h i mw k"
proof -
  from assms(1) have k: "k = start + (k - start)" by simp
  from assms(2) have "\<forall>j. start \<le> j \<and> j < start + (k - start) \<longrightarrow>
           (\<forall>c. heightAt h (firingTime h pollIntervalMs j) = Some c \<longrightarrow>
              c \<le> i \<and> firingTime h pollIntervalMs j < mw)"
    using k by simp
  then have "pollFrom h i mw start = pollFrom h i mw (start + (k - start))"
    by (rule pollFrom_run_add)
  with k show ?thesis by simp
qed

lemma pollFrom_SomeD:
  assumes "pollFrom h i mw start = Some y"
  shows "\<exists>k c. start \<le> k
           \<and> (\<forall>j. start \<le> j \<and> j < k \<longrightarrow>
                (\<forall>d. heightAt h (firingTime h pollIntervalMs j) = Some d \<longrightarrow>
                   d \<le> i \<and> firingTime h pollIntervalMs j < mw))
           \<and> heightAt h (firingTime h pollIntervalMs k) = Some c
           \<and> (i < c \<or> mw \<le> firingTime h pollIntervalMs k)
           \<and> y = (i < c, firingTime h pollIntervalMs k)"
proof -
  define Q where "Q = (\<lambda>h i mw start y. \<exists>k c. start \<le> k
           \<and> (\<forall>j. start \<le> j \<and> j < k \<longrightarrow>
                (\<forall>d. heightAt h (firingTime h pollIntervalMs j) = Some d \<longrightarrow>
                   d \<le> i \<and> firingTime h pollIntervalMs j < mw))
           \<and> heightAt h (firingTime h pollIntervalMs k) = Some c
           \<and> (i < c \<or> mw \<le> firingTime h pollIntervalMs k)
           \<and> y = (i < c, firingTime h pollIntervalMs k))"
  have "Q h i mw start y"
  proof (rule pollFrom.raw_induct [where P = Q, OF _ assms], goal_cases)
    case (1 rec h i mw start y)
    let ?t = "firingTime h pollIntervalMs start"
    let ?idle = "\<lambda>j. \<forall>d. heightAt h (firingTime h pollIntervalMs j) = Some d \<longrightarrow>
                     d \<le> i \<and> firingTime h pollIntervalMs j < mw"
    have body: "(case heightAt h ?t of
                   None \<Rightarrow> rec h i mw (Suc start)
                 | Some currentHeight \<Rightarrow>
                     if i < currentHeight then Some (True, ?t)
                     else if mw \<le> ?t then Some (False, ?t)
                     else rec h i mw (Suc start)) = Some y"
      using 1(2) by (simp only: Let_def)
    show ?case
    proof (cases "?idle start")
      case True
      have "rec h i mw (Suc start) = Some y"
      proof (cases "heightAt h ?t")
        case None
        with body show ?thesis by simp
      next
        case (Some d)
        with True have "d \<le> i" "?t < mw" by simp_all
        with body Some show ?thesis by simp
      qed
      then have "Q h i mw (Suc start) y" by (rule 1(1))
      then obtain k c where k: "Suc start \<le> k"
        "\<forall>j. Suc start \<le> j \<and> j < k \<longrightarrow> ?idle j"
        "heightAt h (firingTime h pollIntervalMs k) = Some c"
        "i < c \<or> mw \<le> firingTime h pollIntervalMs k"
        "y = (i < c, firingTime h pollIntervalMs k)"
        unfolding Q_def by blast
      have all: "\<forall>j. start \<le> j \<and> j < k \<longrightarrow> ?idle j"
      proof (rule allI, rule impI)
        fix j
        assume j: "start \<le> j \<and> j < k"
        show "?idle j"
        proof (cases "j = start")
          case True
          with \<open>?idle start\<close> show ?thesis by simp
        next
          case False
          with j have "Suc start \<le> j \<and> j < k" by simp
          with k(2) show ?thesis by blast
        qed
      qed
      from k(1) have "start \<le> k" by simp
      with all k(3-5) show ?thesis unfolding Q_def by blast
    next
      case False
      then obtain c where c: "heightAt h ?t = Some c" "\<not> (c \<le> i \<and> ?t < mw)"
        by blast
      then have settle: "i < c \<or> mw \<le> ?t" by auto
      have "y = (i < c, ?t)"
      proof (cases "i < c")
        case True
        with body c(1) show ?thesis by simp
      next
        case False
        with settle have "mw \<le> ?t" by simp
        with body c(1) False show ?thesis by simp
      qed
      with c(1) settle have "start \<le> start \<and> (\<forall>j. start \<le> j \<and> j < start \<longrightarrow> ?idle j)
          \<and> heightAt h ?t = Some c \<and> (i < c \<or> mw \<le> ?t) \<and> y = (i < c, ?t)"
        by simp
      then show ?thesis unfolding Q_def by blast
    qed
  qed
  then show ?thesis unfolding Q_def .
qed

lemma pollFrom_Some_iff:
  "pollFrom h i mw start = Some (b, t) \<longleftrightarrow>
     (\<exists>k c. start \<le> k
        \<and> (\<forall>j. start \<le> j \<and> j < k \<longrightarrow>
             (\<forall>d. heightAt h (firingTime h pollIntervalMs j) = Some d \<longrightarrow>
                d \<le> i \<and> firingTime h pollIntervalMs j < mw))
        \<and> heightAt h (firingTime h pollIntervalMs k) = Some c
        \<and> (i < c \<or> mw \<le> firingTime h pollIntervalMs k)
        \<and> b = (i < c) \<and> t = firingTime h pollIntervalMs k)"
proof
  assume "pollFrom h i mw start = Some (b, t)"
  from pollFrom_SomeD [OF this] show "\<exists>k c. start \<le> k
        \<and> (\<forall>j. start \<le> j \<and> j < k \<longrightarrow>
             (\<forall>d. heightAt h (firingTime h pollIntervalMs j) = Some d \<longrightarrow>
                d \<le> i \<and> firingTime h pollIntervalMs j < mw))
        \<and> heightAt h (firingTime h pollIntervalMs k) = Some c
        \<and> (i < c \<or> mw \<le> firingTime h pollIntervalMs k)
        \<and> b = (i < c) \<and> t = firingTime h pollIntervalMs k"
    by auto
next
  assume "\<exists>k c. start \<le> k
        \<and> (\<forall>j. start \<le> j \<and> j < k \<longrightarrow>
             (\<forall>d. heightAt h (firingTime h pollIntervalMs j) = Some d \<longrightarrow>
                d \<le> i \<and> firingTime h pollIntervalMs j < mw))
        \<and> heightAt h (firingTime h pollIntervalMs k) = Some c
        \<and> (i < c \<or> mw \<le> firingTime h pollIntervalMs k)
        \<and> b = (i < c) \<and> t = firingTime h pollIntervalMs k"
  then obtain k c where k: "start \<le> k"
    "\<forall>j. start \<le> j \<and> j < k \<longrightarrow>
             (\<forall>d. heightAt h (firingTime h pollIntervalMs j) = Some d \<longrightarrow>
                d \<le> i \<and> firingTime h pollIntervalMs j < mw)"
    "heightAt h (firingTime h pollIntervalMs k) = Some c"
    "i < c \<or> mw \<le> firingTime h pollIntervalMs k"
    "b = (i < c)" "t = firingTime h pollIntervalMs k"
    by blast
  from k(1,2) have "pollFrom h i mw start = pollFrom h i mw k" by (rule pollFrom_run)
  also from k(3,4) have "\<dots> = Some (i < c, firingTime h pollIntervalMs k)" by (rule pollFrom_here)
  finally show "pollFrom h i mw start = Some (b, t)" using k(5,6) by simp
qed

lemma pollFrom_total:
  assumes "\<forall>t. heightAt h t \<noteq> None"
    and "mw \<le> firingTime h pollIntervalMs (start + n)"
  shows "pollFrom h i mw start \<noteq> None"
  using assms(2)
proof (induction n arbitrary: start)
  case 0
  from assms(1) obtain c where "heightAt h (firingTime h pollIntervalMs start) = Some c" by auto
  with 0 pollFrom_here [of h start c i mw] show ?case by simp
next
  case (Suc n)
  from assms(1) obtain c where c: "heightAt h (firingTime h pollIntervalMs start) = Some c" by auto
  show ?case
  proof (cases "i < c \<or> mw \<le> firingTime h pollIntervalMs start")
    case True
    with c pollFrom_here [of h start c i mw] show ?thesis by simp
  next
    case False
    with c have "pollFrom h i mw start = pollFrom h i mw (Suc start)"
      by (intro pollFrom_next) auto
    moreover from Suc.prems have "pollFrom h i mw (Suc start) \<noteq> None"
      by (intro Suc.IH) simp
    ultimately show ?thesis by simp
  qed
qed

lemma firingTime_reaches: "mw \<le> firingTime h pollIntervalMs (1 + nat mw)"
proof -
  have "mw \<le> int (1 + nat mw) * 100" by simp
  also have "\<dots> \<le> firingTime h pollIntervalMs (1 + nat mw)"
    by (simp add: firingTime_def pollIntervalMs_def)
  finally show ?thesis .
qed

lemma pollFrom_True_iff:
  "(\<exists>t. pollFrom h i mw start = Some (True, t)) \<longleftrightarrow>
     (\<exists>k c. start \<le> k
        \<and> (\<forall>j. start \<le> j \<and> j < k \<longrightarrow>
             (\<forall>d. heightAt h (firingTime h pollIntervalMs j) = Some d \<longrightarrow>
                d \<le> i \<and> firingTime h pollIntervalMs j < mw))
        \<and> heightAt h (firingTime h pollIntervalMs k) = Some c \<and> i < c)"
proof
  assume "\<exists>t. pollFrom h i mw start = Some (True, t)"
  then obtain t where "pollFrom h i mw start = Some (True, t)" ..
  from pollFrom_SomeD [OF this] obtain k c where k: "start \<le> k"
    "\<forall>j. start \<le> j \<and> j < k \<longrightarrow>
             (\<forall>d. heightAt h (firingTime h pollIntervalMs j) = Some d \<longrightarrow>
                d \<le> i \<and> firingTime h pollIntervalMs j < mw)"
    "heightAt h (firingTime h pollIntervalMs k) = Some c"
    "(True, t) = (i < c, firingTime h pollIntervalMs k)"
    by blast
  from k(4) have "i < c" by simp
  with k(1-3) show "\<exists>k c. start \<le> k
        \<and> (\<forall>j. start \<le> j \<and> j < k \<longrightarrow>
             (\<forall>d. heightAt h (firingTime h pollIntervalMs j) = Some d \<longrightarrow>
                d \<le> i \<and> firingTime h pollIntervalMs j < mw))
        \<and> heightAt h (firingTime h pollIntervalMs k) = Some c \<and> i < c"
    by blast
next
  assume "\<exists>k c. start \<le> k
        \<and> (\<forall>j. start \<le> j \<and> j < k \<longrightarrow>
             (\<forall>d. heightAt h (firingTime h pollIntervalMs j) = Some d \<longrightarrow>
                d \<le> i \<and> firingTime h pollIntervalMs j < mw))
        \<and> heightAt h (firingTime h pollIntervalMs k) = Some c \<and> i < c"
  then obtain k c where k: "start \<le> k"
    "\<forall>j. start \<le> j \<and> j < k \<longrightarrow>
             (\<forall>d. heightAt h (firingTime h pollIntervalMs j) = Some d \<longrightarrow>
                d \<le> i \<and> firingTime h pollIntervalMs j < mw)"
    "heightAt h (firingTime h pollIntervalMs k) = Some c" "i < c"
    by blast
  from k(1,2) have "pollFrom h i mw start = pollFrom h i mw k" by (rule pollFrom_run)
  also from k(3,4) have "\<dots> = Some (i < c, firingTime h pollIntervalMs k)"
    by (intro pollFrom_here) simp_all
  finally show "\<exists>t. pollFrom h i mw start = Some (True, t)" using k(4) by simp
qed

lemma pollFrom_False_iff:
  "(\<exists>t. pollFrom h i mw start = Some (False, t)) \<longleftrightarrow>
     (\<exists>k c. start \<le> k
        \<and> (\<forall>j. start \<le> j \<and> j < k \<longrightarrow>
             (\<forall>d. heightAt h (firingTime h pollIntervalMs j) = Some d \<longrightarrow>
                d \<le> i \<and> firingTime h pollIntervalMs j < mw))
        \<and> heightAt h (firingTime h pollIntervalMs k) = Some c \<and> c \<le> i
        \<and> mw \<le> firingTime h pollIntervalMs k)"
proof
  assume "\<exists>t. pollFrom h i mw start = Some (False, t)"
  then obtain t where "pollFrom h i mw start = Some (False, t)" ..
  from pollFrom_SomeD [OF this] obtain k c where k: "start \<le> k"
    "\<forall>j. start \<le> j \<and> j < k \<longrightarrow>
             (\<forall>d. heightAt h (firingTime h pollIntervalMs j) = Some d \<longrightarrow>
                d \<le> i \<and> firingTime h pollIntervalMs j < mw)"
    "heightAt h (firingTime h pollIntervalMs k) = Some c"
    "i < c \<or> mw \<le> firingTime h pollIntervalMs k"
    "(False, t) = (i < c, firingTime h pollIntervalMs k)"
    by blast
  from k(4,5) have "c \<le> i" "mw \<le> firingTime h pollIntervalMs k" by auto
  with k(1-3) show "\<exists>k c. start \<le> k
        \<and> (\<forall>j. start \<le> j \<and> j < k \<longrightarrow>
             (\<forall>d. heightAt h (firingTime h pollIntervalMs j) = Some d \<longrightarrow>
                d \<le> i \<and> firingTime h pollIntervalMs j < mw))
        \<and> heightAt h (firingTime h pollIntervalMs k) = Some c \<and> c \<le> i
        \<and> mw \<le> firingTime h pollIntervalMs k"
    by blast
next
  assume "\<exists>k c. start \<le> k
        \<and> (\<forall>j. start \<le> j \<and> j < k \<longrightarrow>
             (\<forall>d. heightAt h (firingTime h pollIntervalMs j) = Some d \<longrightarrow>
                d \<le> i \<and> firingTime h pollIntervalMs j < mw))
        \<and> heightAt h (firingTime h pollIntervalMs k) = Some c \<and> c \<le> i
        \<and> mw \<le> firingTime h pollIntervalMs k"
  then obtain k c where k: "start \<le> k"
    "\<forall>j. start \<le> j \<and> j < k \<longrightarrow>
             (\<forall>d. heightAt h (firingTime h pollIntervalMs j) = Some d \<longrightarrow>
                d \<le> i \<and> firingTime h pollIntervalMs j < mw)"
    "heightAt h (firingTime h pollIntervalMs k) = Some c" "c \<le> i"
    "mw \<le> firingTime h pollIntervalMs k"
    by blast
  from k(1,2) have "pollFrom h i mw start = pollFrom h i mw k" by (rule pollFrom_run)
  also from k(3,5) have "\<dots> = Some (i < c, firingTime h pollIntervalMs k)"
    by (intro pollFrom_here) simp_all
  finally show "\<exists>t. pollFrom h i mw start = Some (False, t)" using k(4) by simp
qed

lemma waitForNewContent_Inr_iff:
  assumes "heightAt h 0 = Some initial"
  shows "waitForNewContent h mw = Some (Inr b) \<longleftrightarrow> (\<exists>t. pollFrom h initial mw 1 = Some (b, t))"
  using assms by (auto simp: waitForNewContent_def)

text \<open>
  C5. \<^verbatim>\<open>waitForNewContent\<close> reads the scroll height once at entry and compares the reading
  of every firing of its 100 ms interval timer with it. It resolves \<open>true\<close> exactly when
  some firing reads a greater height and no earlier firing has ended the wait, that is,
  at the first such firing; it resolves \<open>false\<close> exactly when some firing reads a height
  that is not greater together with an elapsed time of at least \<open>maxWait\<close>, and no
  earlier firing has ended the wait: an unchanged height ends the wait only once
  \<open>maxWait\<close> has elapsed. The \<open>k\<close>-th firing is \<open>100 * k\<close> ms after the start, plus its
  lateness. As long as the document keeps its body the wait does resolve. With the
  timer on time and the default of 5000 ms, a height that never grows resolves \<open>false\<close>
  at 5000 ms. Without a body at entry the call throws.
\<close>

theorem waitForNewContent_bounded:
  "(heightAt h 0 = Some initial \<longrightarrow>
      (waitForNewContent h maxWait = Some (Inr True) \<longleftrightarrow>
         (\<exists>k c. 1 \<le> k
            \<and> (\<forall>j. 1 \<le> j \<and> j < k \<longrightarrow>
                 (\<forall>d. heightAt h (firingTime h pollIntervalMs j) = Some d \<longrightarrow>
                    d \<le> initial \<and> firingTime h pollIntervalMs j < maxWait))
            \<and> heightAt h (firingTime h pollIntervalMs k) = Some c \<and> initial < c)))
   \<and> (heightAt h 0 = Some initial \<longrightarrow>
      (waitForNewContent h maxWait = Some (Inr False) \<longleftrightarrow>
         (\<exists>k c. 1 \<le> k
            \<and> (\<forall>j. 1 \<le> j \<and> j < k \<longrightarrow>
                 (\<forall>d. heightAt h (firingTime h pollIntervalMs j) = Some d \<longrightarrow>
                    d \<le> initial \<and> firingTime h pollIntervalMs j < maxWait))
            \<and> heightAt h (firingTime h pollIntervalMs k) = Some c \<and> c \<le> initial
            \<and> maxWait \<le> firingTime h pollIntervalMs k)))
   \<and> firingTime h pollIntervalMs n = 100 * int n + int (lateness h n)
   \<and> ((\<forall>t. heightAt h t \<noteq> None) \<longrightarrow>
        (\<exists>b. waitForNewContent h maxWait = Some (Inr b)))
   \<and> ((\<forall>k. lateness h k = 0) \<and> (\<forall>t. \<exists>c. heightAt h t = Some c \<and> c \<le> initial)
        \<and> heightAt h 0 = Some initial \<longrightarrow>
        waitForNewContent h defaultMaxWait = Some (Inr False)
        \<and> pollFrom h initial defaultMaxWait 1 = Some (False, defaultMaxWait))
   \<and> (heightAt h 0 = None \<longrightarrow> waitForNewContent h maxWait = Some (Inl TypeError))"
proof (intro conjI impI)
  assume a: "heightAt h 0 = Some initial"
  show "waitForNewContent h maxWait = Some (Inr True) \<longleftrightarrow>
         (\<exists>k c. 1 \<le> k
            \<and> (\<forall>j. 1 \<le> j \<and> j < k \<longrightarrow>
                 (\<forall>d. heightAt h (firingTime h pollIntervalMs j) = Some d \<longrightarrow>
                    d \<le> initial \<and> firingTime h pollIntervalMs j < maxWait))
            \<and> heightAt h (firingTime h pollIntervalMs k) = Some c \<and> initial < c)"
    unfolding waitForNewContent_Inr_iff [OF a] by (rule pollFrom_True_iff)
next
  assume a: "heightAt h 0 = Some initial"
  show "waitForNewContent h maxWait = Some (Inr False) \<longleftrightarrow>
         (\<exists>k c. 1 \<le> k
            \<and> (\<forall>j. 1 \<le> j \<and> j < k \<longrightarrow>
                 (\<forall>d. heightAt h (firingTime h pollIntervalMs j) = Some d \<longrightarrow>
                    d \<le> initial \<and> firingTime h pollIntervalMs j < maxWait))
            \<and> heightAt h (firingTime h pollIntervalMs k) = Some c \<and> c \<le> initial
            \<and> maxWait \<le> firingTime h pollIntervalMs k)"
    unfolding waitForNewContent_Inr_iff [OF a] by (rule pollFrom_False_iff)
next
  show "firingTime h pollIntervalMs n = 100 * int n + int (lateness h n)"
    by (simp add: firingTime_def pollIntervalMs_def)
next
  assume body: "\<forall>t. heightAt h t \<noteq> None"
  then obtain i where i: "heightAt h 0 = Some i" by auto
  from body firingTime_reaches [of maxWait h] have "pollFrom h i maxWait 1 \<noteq> None"
    by (rule pollFrom_total)
  then obtain b t where "pollFrom h i maxWait 1 = Some (b, t)" by auto
  with i show "\<exists>b. waitForNewContent h maxWait = Some (Inr b)"
    by (auto simp: waitForNewContent_def)
next
  assume a: "(\<forall>k. lateness h k = 0) \<and> (\<forall>t. \<exists>c. heightAt h t = Some c \<and> c \<le> initial)
        \<and> heightAt h 0 = Some initial"
  then have ft: "firingTime h pollIntervalMs k = 100 * int k" for k
    by (simp add: firingTime_def pollIntervalMs_def)
  from a obtain c where c: "heightAt h (firingTime h pollIntervalMs 50) = Some c" "c \<le> initial"
    by blast
  have "pollFrom h initial 5000 1 = pollFrom h initial 5000 50"
  proof (rule pollFrom_run)
    show "(1::nat) \<le> 50" by simp
    show "\<forall>j. 1 \<le> j \<and> j < 50 \<longrightarrow>
           (\<forall>d. heightAt h (firingTime h pollIntervalMs j) = Some d \<longrightarrow>
              d \<le> initial \<and> firingTime h pollIntervalMs j < 5000)"
      using a by (auto simp: ft) (metis option.inject)
  qed
  also from c have "\<dots> = Some (initial < c, firingTime h pollIntervalMs 50)"
    by (intro pollFrom_here) (simp_all add: ft)
  finally show p: "pollFrom h initial defaultMaxWait 1 = Some (False, defaultMaxWait)"
    using c by (simp add: ft defaultMaxWait_def)
  with a show "waitForNewContent h defaultMaxWait = Some (Inr False)"
    by (simp add: waitForNewContent_def)
next
  assume "heightAt h 0 = None"
  then show "waitForNewContent h maxWait = Some (Inl TypeError)"
    by (simp add: waitForNewContent_def)
qed

lemma stalledHost_reads:
  "heightAt stalledHost t = Some 800"
  "firingTime stalledHost pollIntervalMs k = 100 * int k"
  by (simp_all add: firingTime_def pollIntervalMs_def stalledHost_def)

lemma growingHost_reads:
  "heightAt growingHost t = (if t < 150 then Some 800 else Some 1400)"
  "firingTime growingHost pollIntervalMs k = 100 * int k"
  by (simp_all add: firingTime_def pollIntervalMs_def growingHost_def)

lemma stalledHost_wait:
  "pollFrom stalledHost 800 defaultMaxWait 1 = Some (False, 5000)"
  "waitForNewContent stalledHost defaultMaxWait = Some (Inr False)"
proof -
  have "pollFrom stalledHost 800 5000 1 = pollFrom stalledHost 800 5000 50"
    by (rule pollFrom_run) (auto simp: stalledHost_reads)
  also have "\<dots> = Some (800 < (800::int), firingTime stalledHost pollIntervalMs 50)"
    by (rule pollFrom_here) (simp_all add: stalledHost_reads)
  finally show p: "pollFrom stalledHost 800 defaultMaxWait 1 = Some (False, 5000)"
    by (simp add: stalledHost_reads defaultMaxWait_def)
  then show "waitForNewContent stalledHost defaultMaxWait = Some (Inr False)"
    by (simp add: waitForNewContent_def stalledHost_reads)
qed

lemma growingHost_wait:
  "pollFrom growingHost 800 defaultMaxWait 1 = Some (True, 200)"
  "waitForNewContent growingHost defaultMaxWait = Some (Inr True)"
proof -
  have "pollFrom growingHost 800 5000 1 = pollFrom growingHost 800 5000 (Suc 1)"
    by (rule pollFrom_next) (simp add: growingHost_reads)
  also have "\<dots> = Some (800 < (1400::int), firingTime growingHost pollIntervalMs (Suc 1))"
    by (rule pollFrom_here) (simp_all add: growingHost_reads)
  finally show p: "pollFrom growingHost 800 defaultMaxWait 1 = Some (True, 200)"
    by (simp add: growingHost_reads defaultMaxWait_def)
  then show "waitForNewContent growingHost defaultMaxWait = Some (Inr True)"
    by (simp add: waitForNewContent_def growingHost_reads)
qed

lemma bodilessHost_wait: "waitForNewContent bodilessHost defaultMaxWait = Some (Inl TypeError)"
  by (simp add: waitForNewContent_def bodilessHost_def)

theorem waitForNewContent_bounded_witness:
  "heightAt growingHost 0 = Some 800
   \<and> heightAt growingHost (firingTime growingHost pollIntervalMs 1) = Some 800
   \<and> firingTime growingHost pollIntervalMs 1 < defaultMaxWait
   \<and> heightAt growingHost (firingTime growingHost pollIntervalMs 2) = Some 1400
   \<and> firingTime growingHost pollIntervalMs 2 = 200
   \<and> waitForNewContent growingHost defaultMaxWait = Some (Inr True)
   \<and> waitForNewContent growingHost defaultMaxWait \<noteq> Some (Inr False)
   \<and> heightAt stalledHost 0 = Some 800
   \<and> waitForNewContent stalledHost defaultMaxWait = Some (Inr False)
   \<and> pollFrom stalledHost 800 defaultMaxWait 1 = Some (False, 5000)
   \<and> heightAt bodilessHost 0 = None
   \<and> waitForNewContent bodilessHost defaultMaxWait = Some (Inl TypeError)"
proof -
  note g = waitForNewContent_bounded [of growingHost 800 defaultMaxWait 2]
  note s = waitForNewContent_bounded [of stalledHost 800 defaultMaxWait 50]
  note b = waitForNewContent_bounded [of bodilessHost 0 defaultMaxWait 0]
  have g0: "heightAt growingHost 0 = Some 800" by (simp add: growingHost_reads)
  have "\<exists>k c. 1 \<le> k
            \<and> (\<forall>j. 1 \<le> j \<and> j < k \<longrightarrow>
                 (\<forall>d. heightAt growingHost (firingTime growingHost pollIntervalMs j) = Some d \<longrightarrow>
                    d \<le> 800 \<and> firingTime growingHost pollIntervalMs j < defaultMaxWait))
            \<and> heightAt growingHost (firingTime growingHost pollIntervalMs k) = Some c \<and> 800 < c"
    apply (rule exI [of _ 2])
    apply (rule exI [of _ 1400])
    apply (auto simp: growingHost_reads defaultMaxWait_def less_2_cases_iff)
    done
  with g g0 have gT: "waitForNewContent growingHost defaultMaxWait = Some (Inr True)" by blast
  have s0: "heightAt stalledHost 0 = Some 800" by (simp add: stalledHost_reads)
  have "(\<forall>k. lateness stalledHost k = 0) \<and> (\<forall>t. \<exists>c. heightAt stalledHost t = Some c \<and> c \<le> 800)"
    by (simp add: stalledHost_def)
  with s s0 have sF: "waitForNewContent stalledHost defaultMaxWait = Some (Inr False)"
    "pollFrom stalledHost 800 defaultMaxWait 1 = Some (False, defaultMaxWait)"
    by blast+
  have b0: "heightAt bodilessHost 0 = None" by (simp add: bodilessHost_def)
  with b have bT: "waitForNewContent bodilessHost defaultMaxWait = Some (Inl TypeError)" by blast
  from gT sF bT g0 s0 b0 show ?thesis
    by (simp add: growingHost_reads defaultMaxWait_def)
qed

section \<open>Traversal\<close>

lemma waitForNewContent_resolves:
  assumes "\<forall>t. heightAt h t \<noteq> None"
  shows "\<exists>b. waitForNewContent h maxWait = Some (Inr b)"
proof -
  from assms obtain i where i: "heightAt h 0 = Some i" by auto
  from assms firingTime_reaches [of maxWait h] have "pollFrom h i maxWait 1 \<noteq> None"
    by (rule pollFrom_total)
  then obtain b t where "pollFrom h i maxWait 1 = Some (b, t)" by auto
  with i show ?thesis by (simp add: waitForNewContent_def)
qed

lemma navigateToNextPage_click:
  assumes "element c = Some e"
    and "isLoadMore c = Some True \<or> \<not> truthyV (url c)"
    and "\<not> clickThrows h e"
  shows "navigateToNextPage h (Some c) =
           (case waitForNewContent h defaultMaxWait of
              None \<Rightarrow> ([Click e], None)
            | Some (Inl error) \<Rightarrow> ([Click e, ConsoleError error], Some (Inr False))
            | Some (Inr grown) \<Rightarrow> ([Click e], Some (Inr True)))"
  using assms
  by (auto simp: navigateToNextPage_def tryBlock_def clickAndWait_def
      split: option.splits sum.splits)

text \<open>
  C3, as the spec states it, fails: a load-more candidate is clicked, the wait times out
  with the height unchanged (its outcome is \<open>false\<close>), and \<^verbatim>\<open>navigateToNextPage\<close> still
  returns \<open>true\<close>; the same for a candidate without a url.
\<close>

theorem navigate_ignores_wait_outcome:
  "waitForNewContent stalledHost defaultMaxWait = Some (Inr False)
   \<and> navigateToNextPage stalledHost (Some loadMoreCandidate) = ([Click 0], Some (Inr True))
   \<and> navigateToNextPage stalledHost (Some clickOnlyCandidate) = ([Click 0], Some (Inr True))"
proof -
  have "\<not> clickThrows stalledHost 0" by (simp add: stalledHost_def)
  then have "navigateToNextPage stalledHost (Some loadMoreCandidate) = ([Click 0], Some (Inr True))"
    "navigateToNextPage stalledHost (Some clickOnlyCandidate) = ([Click 0], Some (Inr True))"
    by (simp_all add: navigateToNextPage_click [of _ 0] stalledHost_wait loadMoreCandidate_def
        clickOnlyCandidate_def)
  with stalledHost_wait(2) show ?thesis by simp
qed

text \<open>
  C3, amended. For a load-more candidate and for a candidate without a url, with the
  element present and a click that does not throw, \<^verbatim>\<open>navigateToNextPage\<close> clicks the
  element and awaits the content wait. When the wait resolves, the result is \<open>true\<close>
  whatever the wait resolved with, so it is \<open>true\<close> on every page whose body is there
  throughout; when the wait throws, because \<^verbatim>\<open>document.body\<close> is \<^verbatim>\<open>null\<close> as it starts,
  the error is logged and the result is \<open>false\<close>; the call stays pending as long as the
  wait does.
\<close>

theorem navigate_click_then_true:
  assumes "element c = Some e"
    and "isLoadMore c = Some True \<or> \<not> truthyV (url c)"
    and "\<not> clickThrows h e"
  shows "navigateToNextPage h (Some c) =
           (case waitForNewContent h defaultMaxWait of
              None \<Rightarrow> ([Click e], None)
            | Some (Inl error) \<Rightarrow> ([Click e, ConsoleError error], Some (Inr False))
            | Some (Inr grown) \<Rightarrow> ([Click e], Some (Inr True)))
         \<and> ((\<forall>t. heightAt h t \<noteq> None) \<longrightarrow>
               navigateToNextPage h (Some c) = ([Click e], Some (Inr True)))
         \<and> (heightAt h 0 = None \<longrightarrow>
               navigateToNextPage h (Some c)
                 = ([Click e, ConsoleError TypeError], Some (Inr False)))"
proof -
  have eq: "navigateToNextPage h (Some c) =
           (case waitForNewContent h defaultMaxWait of
              None \<Rightarrow> ([Click e], None)
            | Some (Inl error) \<Rightarrow> ([Click e, ConsoleError error], Some (Inr False))
            | Some (Inr grown) \<Rightarrow> ([Click e], Some (Inr True)))"
    using assms by (rule navigateToNextPage_click)
  have always: "(\<forall>t. heightAt h t \<noteq> None) \<longrightarrow>
           navigateToNextPage h (Some c) = ([Click e], Some (Inr True))"
  proof
    assume "\<forall>t. heightAt h t \<noteq> None"
    then obtain b where "waitForNewContent h defaultMaxWait = Some (Inr b)"
      using waitForNewContent_resolves by blast
    with eq show "navigateToNextPage h (Some c) = ([Click e], Some (Inr True))" by simp
  qed
  have never: "heightAt h 0 = None \<longrightarrow>
           navigateToNextPage h (Some c) = ([Click e, ConsoleError TypeError], Some (Inr False))"
    using eq by (simp add: waitForNewContent_def)
  from eq always never show ?thesis by blast
qed

theorem navigate_click_then_true_witness:
  "element loadMoreCandidate = Some 0
   \<and> isLoadMore loadMoreCandidate = Some True
   \<and> \<not> clickThrows growingHost 0
   \<and> waitForNewContent growingHost defaultMaxWait = Some (Inr True)
   \<and> navigateToNextPage growingHost (Some loadMoreCandidate) = ([Click 0], Some (Inr True))
   \<and> element clickOnlyCandidate = Some 0
   \<and> \<not> truthyV (url clickOnlyCandidate)
   \<and> \<not> clickThrows bodilessHost 0
   \<and> heightAt bodilessHost 0 = None
   \<and> waitForNewContent bodilessHost defaultMaxWait = Some (Inl TypeError)
   \<and> navigateToNextPage bodilessHost (Some clickOnlyCandidate)
       = ([Click 0, ConsoleError TypeError], Some (Inr False))"
  using navigate_click_then_true [of loadMoreCandidate 0 growingHost]
    navigate_click_then_true [of clickOnlyCandidate 0 bodilessHost]
    growingHost_wait(2) bodilessHost_wait
  by (simp add: loadMoreCandidate_def clickOnlyCandidate_def growingHost_def bodilessHost_def)

text \<open>
  C4. Without a candidate, or without its element, \<^verbatim>\<open>navigateToNextPage\<close> returns \<open>false\<close>
  and does nothing. For a candidate that is not load-more and has a url it assigns the
  url to the location and returns \<open>true\<close>, whatever the timer and the height of the page
  would be. When the click or the navigation throws, the error is logged and the result
  is \<open>false\<close>; no call ends in an exception.
\<close>

theorem navigate_guards_and_errors:
  "navigateToNextPage h None = ([], Some (Inr False))
   \<and> (element c = None \<longrightarrow> navigateToNextPage h (Some c) = ([], Some (Inr False)))
   \<and> (element c = Some e \<and> isLoadMore c \<noteq> Some True \<and> truthyV (url c)
        \<and> \<not> navigationThrows h (toStr (url c)) \<longrightarrow>
      navigateToNextPage h (Some c) = ([Navigate (toStr (url c))], Some (Inr True))
      \<and> navigateToNextPage (h\<lparr>lateness := l, heightAt := f\<rparr>) (Some c)
          = ([Navigate (toStr (url c))], Some (Inr True)))
   \<and> (element c = Some e \<and> isLoadMore c \<noteq> Some True \<and> truthyV (url c)
        \<and> navigationThrows h (toStr (url c)) \<longrightarrow>
      navigateToNextPage h (Some c) = ([ConsoleError NavigationError], Some (Inr False)))
   \<and> (element c = Some e \<and> (isLoadMore c = Some True \<or> \<not> truthyV (url c))
        \<and> clickThrows h e \<longrightarrow>
      navigateToNextPage h (Some c) = ([Click e, ConsoleError ClickError], Some (Inr False)))
   \<and> snd (navigateToNextPage h info) \<noteq> Some (Inl x)"
  by (auto simp: navigateToNextPage_def tryBlock_def clickAndWait_def
      split: option.splits sum.splits prod.splits)

theorem navigate_guards_and_errors_witness:
  "navigateToNextPage throwingHost None = ([], Some (Inr False))
   \<and> navigateToNextPage throwingHost (Some detachedCandidate) = ([], Some (Inr False))
   \<and> navigateToNextPage stalledHost (Some priorityCandidate)
       = ([Navigate (ascii ''https://x/2'')], Some (Inr True))
   \<and> navigateToNextPage (stalledHost\<lparr>lateness := (\<lambda>k. 7), heightAt := (\<lambda>t. None)\<rparr>)
         (Some priorityCandidate)
       = ([Navigate (ascii ''https://x/2'')], Some (Inr True))
   \<and> navigateToNextPage throwingHost (Some priorityCandidate)
       = ([ConsoleError NavigationError], Some (Inr False))
   \<and> navigateToNextPage throwingHost (Some loadMoreCandidate)
       = ([Click 0, ConsoleError ClickError], Some (Inr False))
   \<and> navigateToNextPage throwingHost (Some clickOnlyCandidate)
       = ([Click 0, ConsoleError ClickError], Some (Inr False))"
  using navigate_guards_and_errors [where h = throwingHost and c = detachedCandidate and e = 0
      and l = "\<lambda>k. 0" and f = "\<lambda>t. None" and info = None]
    navigate_guards_and_errors [where h = stalledHost and c = priorityCandidate and e = 0
      and l = "\<lambda>k. 7" and f = "\<lambda>t. None" and info = None]
    navigate_guards_and_errors [where h = throwingHost and c = priorityCandidate and e = 0
      and l = "\<lambda>k. 0" and f = "\<lambda>t. None" and info = None]
    navigate_guards_and_errors [where h = throwingHost and c = loadMoreCandidate and e = 0
      and l = "\<lambda>k. 0" and f = "\<lambda>t. None" and info = None]
    navigate_guards_and_errors [where h = throwingHost and c = clickOnlyCandidate and e = 0
      and l = "\<lambda>k. 0" and f = "\<lambda>t. None" and info = None]
  by (simp add: detachedCandidate_def priorityCandidate_def loadMoreCandidate_def
      clickOnlyCandidate_def throwingHost_def stalledHost_def ascii_def)
section \<open>Matchers that skip the validity gate\<close>

lemma hiddenLoadMoreDoc_matchers:
  "findByRelAttribute hiddenLoadMoreDoc = None"
  "findByTextContent hiddenLoadMoreDoc = None"
  "findByClassId hiddenLoadMoreDoc = None"
  "findByAriaLabel hiddenLoadMoreDoc = None"
  "findNumberedPagination hiddenLoadMoreDoc = None"
      apply (simp add: hiddenLoadMoreDoc_def shown_def findByRelAttribute_def relSelector_def relPatterns_def
        dom_defs str_defs)
     apply (simp add: hiddenLoadMoreDoc_def shown_def findByTextContent_def clickableSelector_def
        dom_defs str_defs)
    apply (simp add: hiddenLoadMoreDoc_def shown_def findByClassId_def clickableSelector_def
        classIdPatterns_def dom_defs str_defs)
   apply (simp add: hiddenLoadMoreDoc_def shown_def findByAriaLabel_def ariaSelector_def dom_defs str_defs)
  apply (simp add: hiddenLoadMoreDoc_def shown_def findNumberedPagination_def numberedIn_def linkSelector_def
        paginationSelectors_def dom_defs str_defs)
  done

lemma hiddenLoadMoreDoc_scroll:
  "findInfiniteScrollButton hiddenLoadMoreDoc =
     Some \<lparr>element = Some 0, url = Str (ascii ''https://x/list''), type = InfiniteScroll,
           confidence = 7 / 10, clickOnly = None, isLoadMore = Some True\<rparr>"
  by (simp add: hiddenLoadMoreDoc_def shown_def findInfiniteScrollButton_def buttonSelector_def
      infiniteScrollPatterns_def dom_defs str_defs ext_defs)

lemma hiddenNumberedDoc_matchers:
  "findByRelAttribute hiddenNumberedDoc = None"
  "findByTextContent hiddenNumberedDoc = None"
  "findByClassId hiddenNumberedDoc = None"
  "findByAriaLabel hiddenNumberedDoc = None"
     apply (simp add: hiddenNumberedDoc_def shown_def findByRelAttribute_def relSelector_def relPatterns_def
        dom_defs str_defs)
    apply (simp add: hiddenNumberedDoc_def shown_def findByTextContent_def clickableSelector_def
        textPatterns_def dom_defs str_defs ext_defs)
   apply (simp add: hiddenNumberedDoc_def shown_def findByClassId_def clickableSelector_def
        classIdOf_def classIdPatterns_def dom_defs str_defs ext_defs)
  apply (simp add: hiddenNumberedDoc_def shown_def findByAriaLabel_def ariaSelector_def dom_defs str_defs)
  done

lemma hiddenNumberedDoc_numbered:
  "findNumberedPagination hiddenNumberedDoc =
     Some \<lparr>element = Some 2, url = Str (ascii ''https://x/2''), type = NumberedPagination,
           confidence = 95 / 100, clickOnly = None, isLoadMore = None\<rparr>"
  by (simp add: hiddenNumberedDoc_def shown_def findNumberedPagination_def numberedIn_def linkSelector_def
      isCurrentLink_def nextIndicator_def paginationSelectors_def dom_defs str_defs ext_defs)

text \<open>
  C2 fails on the code. A load-more button with \<^verbatim>\<open>display:none\<close> and an empty box is
  returned by \<^verbatim>\<open>findNextPage\<close> through the infinite-scroll matcher, and a link with
  \<^verbatim>\<open>visibility:hidden\<close> after the current page is returned through the numbered
  pagination matcher; \<^verbatim>\<open>isValidNextPageElement\<close> rejects both elements.
\<close>

theorem findNextPage_returns_hidden_elements:
  "findNextPage hiddenLoadMoreDoc =
     Some \<lparr>element = Some 0, url = Str (ascii ''https://x/list''), type = InfiniteScroll,
           confidence = 7 / 10, clickOnly = None, isLoadMore = Some True\<rparr>
   \<and> \<not> isValidNextPageElement hiddenLoadMoreDoc (Some 0)
   \<and> findNextPage hiddenNumberedDoc =
     Some \<lparr>element = Some 2, url = Str (ascii ''https://x/2''), type = NumberedPagination,
           confidence = 95 / 100, clickOnly = None, isLoadMore = None\<rparr>
   \<and> \<not> isValidNextPageElement hiddenNumberedDoc (Some 2)"
proof -
  have "\<not> isValidNextPageElement hiddenLoadMoreDoc (Some 0)"
    by (simp add: hiddenLoadMoreDoc_def shown_def isValidNextPageElement_def el_def)
  moreover have "\<not> isValidNextPageElement hiddenNumberedDoc (Some 2)"
    by (simp add: hiddenNumberedDoc_def shown_def isValidNextPageElement_def el_def)
  ultimately show ?thesis
    by (simp add: findNextPage_unfold hiddenLoadMoreDoc_matchers hiddenLoadMoreDoc_scroll
        hiddenNumberedDoc_matchers hiddenNumberedDoc_numbered)
qed

section \<open>Infinite scroll\<close>

lemma findInfiniteScrollButton_find:
  "findInfiniteScrollButton doc =
     map_option
       (\<lambda>b. \<lparr>element = Some b,
              url = (if getElementUrl doc b = Null then Str (locationHref doc)
                     else getElementUrl doc b),
              type = InfiniteScroll, confidence = 7 / 10, clickOnly = None, isLoadMore = Some True\<rparr>)
       (List.find
          (\<lambda>b. list_ex (\<lambda>p. includesStr (toLowerCase (getElementText doc b)) (toLowerCase p))
                 infiniteScrollPatterns)
          (querySelectorAll doc buttonSelector))"
proof -
  have url: "(if truthyV (getElementUrl doc b) then getElementUrl doc b else Str (locationHref doc))
               = (if getElementUrl doc b = Null then Str (locationHref doc)
                  else getElementUrl doc b)" for b
    by (simp add: getElementUrl_truthy)
  have inner: "firstSome (\<lambda>p. if T p then Some c else None) ps = (if list_ex T ps then Some c else None)"
    for T :: "jstring \<Rightarrow> bool" and c :: candidate and ps
    by (induction ps) auto
  show ?thesis
    unfolding findInfiniteScrollButton_def Let_def url inner
    by (rule firstSome_find)
qed

lemma buttonSelector_iff:
  "b \<in> set (querySelectorAll doc buttonSelector) \<longleftrightarrow>
     b < length (elements doc)
     \<and> (tagName (el doc b) = ''button''
        \<or> tagName (el doc b) = ''a'' \<and> hasAttribute (el doc b) ''href''
        \<or> getAttribute (el doc b) ''role'' = Some (ascii ''button''))"
  by (auto simp: querySelectorAll_iff matchesSel_def buttonSelector_def split: option.splits)

lemma anchorNoHrefDoc_text: "toLowerCase (getElementText anchorNoHrefDoc 0) = ascii ''load more''"
  by (simp add: anchorNoHrefDoc_def shown_def dom_defs str_defs ext_defs)

lemma anchorNoHrefDoc_url: "getElementUrl anchorNoHrefDoc 0 = Null"
  by (simp add: anchorNoHrefDoc_def shown_def dom_defs str_defs ext_defs)

lemma load_more_includes: "includesStr (ascii ''load more'') (toLowerCase (ascii ''load more''))"
  by (simp add: str_defs)

text \<open>
  C9, as the spec states it, fails. A lone \<^verbatim>\<open><a onclick="more()">Load More</a>\<close> is an
  anchor whose text contains a load-more phrase, so the matcher that scans buttons,
  anchors and elements with the role of a button returns it, with the current location
  as url. The selector of the code is \<^verbatim>\<open>button, a[href], [role="button"]\<close>: the anchor
  has no \<^verbatim>\<open>href\<close> attribute, is not scanned, and \<^verbatim>\<open>findInfiniteScrollButton\<close> returns
  nothing.
\<close>

theorem findInfiniteScrollButton_skips_anchor_without_href:
  "tagName (el anchorNoHrefDoc 0) = ''a''
   \<and> querySelectorAll anchorNoHrefDoc buttonSelector_spec = [0]
   \<and> includesStr (toLowerCase (getElementText anchorNoHrefDoc 0)) (toLowerCase (ascii ''load more''))
   \<and> findInfiniteScrollButton_spec anchorNoHrefDoc =
       Some \<lparr>element = Some 0, url = Str (ascii ''https://x/list''), type = InfiniteScroll,
             confidence = 7 / 10, clickOnly = None, isLoadMore = Some True\<rparr>
   \<and> querySelectorAll anchorNoHrefDoc buttonSelector = []
   \<and> findInfiniteScrollButton anchorNoHrefDoc = None"
proof -
  have tag: "tagName (el anchorNoHrefDoc 0) = ''a''"
    by (simp add: anchorNoHrefDoc_def shown_def el_def)
  have spec: "querySelectorAll anchorNoHrefDoc buttonSelector_spec = [0]"
    by (simp add: anchorNoHrefDoc_def shown_def buttonSelector_spec_def dom_defs str_defs)
  have code: "querySelectorAll anchorNoHrefDoc buttonSelector = []"
    by (simp add: anchorNoHrefDoc_def shown_def buttonSelector_def dom_defs str_defs)
  have pat: "list_ex (\<lambda>p. includesStr (ascii ''load more'') (toLowerCase p)) infiniteScrollPatterns"
    using load_more_includes by (simp add: infiniteScrollPatterns_def)
  have loc: "locationHref anchorNoHrefDoc = ascii ''https://x/list''"
    by (simp add: anchorNoHrefDoc_def)
  have "findInfiniteScrollButton_spec anchorNoHrefDoc =
       Some \<lparr>element = Some 0, url = Str (ascii ''https://x/list''), type = InfiniteScroll,
             confidence = 7 / 10, clickOnly = None, isLoadMore = Some True\<rparr>"
    unfolding findInfiniteScrollButton_spec_def spec
    using pat by (simp add: anchorNoHrefDoc_text anchorNoHrefDoc_url loc)
  moreover have "findInfiniteScrollButton anchorNoHrefDoc = None"
    by (simp add: findInfiniteScrollButton_find code)
  ultimately show ?thesis
    using tag spec code load_more_includes by (simp add: anchorNoHrefDoc_text)
qed

text \<open>
  C9, amended. The infinite-scroll matcher scans the elements matching
  \<^verbatim>\<open>button, a[href], [role="button"]\<close>, that is the buttons, the anchors that carry an
  \<^verbatim>\<open>href\<close> attribute and the elements with the role of a button, in document order. The
  first of them whose lower-cased text contains a lower-cased load-more phrase gives the
  candidate: type infinite-scroll, confidence 0.7, \<open>isLoadMore\<close> true, and as url the url
  extracted from the element or, when there is none, the current location. When no such
  element exists the matcher returns nothing.
\<close>

theorem findInfiniteScrollButton_first_phrase:
  "(x \<in> set (querySelectorAll doc buttonSelector) \<longleftrightarrow>
      x < length (elements doc)
      \<and> (tagName (el doc x) = ''button''
         \<or> tagName (el doc x) = ''a'' \<and> hasAttribute (el doc x) ''href''
         \<or> getAttribute (el doc x) ''role'' = Some (ascii ''button'')))
   \<and> (b \<in> set (querySelectorAll doc buttonSelector)
      \<and> p \<in> set infiniteScrollPatterns
      \<and> toLowerCase (getElementText doc b) = pre @ toLowerCase p @ post
      \<and> (\<forall>x \<in> set (querySelectorAll doc buttonSelector). x < b \<longrightarrow>
            (\<forall>q \<in> set infiniteScrollPatterns.
               \<not> includesStr (toLowerCase (getElementText doc x)) (toLowerCase q)))
    \<longrightarrow> findInfiniteScrollButton doc =
          Some \<lparr>element = Some b,
                url = (if getElementUrl doc b = Null then Str (locationHref doc)
                     else getElementUrl doc b),
                type = InfiniteScroll, confidence = 7 / 10, clickOnly = None,
                isLoadMore = Some True\<rparr>)
   \<and> ((\<forall>x \<in> set (querySelectorAll doc buttonSelector). \<forall>q \<in> set infiniteScrollPatterns.
          \<not> includesStr (toLowerCase (getElementText doc x)) (toLowerCase q))
    \<longrightarrow> findInfiniteScrollButton doc = None)"
proof (intro conjI impI)
  show "x \<in> set (querySelectorAll doc buttonSelector) \<longleftrightarrow>
      x < length (elements doc)
      \<and> (tagName (el doc x) = ''button''
         \<or> tagName (el doc x) = ''a'' \<and> hasAttribute (el doc x) ''href''
         \<or> getAttribute (el doc x) ''role'' = Some (ascii ''button''))"
    by (rule buttonSelector_iff)
next
  let ?P = "\<lambda>b. list_ex (\<lambda>p. includesStr (toLowerCase (getElementText doc b)) (toLowerCase p))
                 infiniteScrollPatterns"
  assume a: "b \<in> set (querySelectorAll doc buttonSelector)
      \<and> p \<in> set infiniteScrollPatterns
      \<and> toLowerCase (getElementText doc b) = pre @ toLowerCase p @ post
      \<and> (\<forall>x \<in> set (querySelectorAll doc buttonSelector). x < b \<longrightarrow>
            (\<forall>q \<in> set infiniteScrollPatterns.
               \<not> includesStr (toLowerCase (getElementText doc x)) (toLowerCase q)))"
  then have "includesStr (toLowerCase (getElementText doc b)) (toLowerCase p)"
    unfolding includesStr_iff by blast
  with a have "?P b" by (auto simp: list_ex_iff)
  moreover from a have "\<forall>x \<in> set (querySelectorAll doc buttonSelector). x < b \<longrightarrow> \<not> ?P x"
    by (auto simp: list_ex_iff)
  ultimately have "List.find ?P (querySelectorAll doc buttonSelector) = Some b"
    using a querySelectorAll_sorted [of doc buttonSelector]
    by (intro find_first_sorted) auto
  then show "findInfiniteScrollButton doc =
          Some \<lparr>element = Some b,
                url = (if getElementUrl doc b = Null then Str (locationHref doc)
                     else getElementUrl doc b),
                type = InfiniteScroll, confidence = 7 / 10, clickOnly = None,
                isLoadMore = Some True\<rparr>"
    by (simp add: findInfiniteScrollButton_find)
next
  let ?P = "\<lambda>b. list_ex (\<lambda>p. includesStr (toLowerCase (getElementText doc b)) (toLowerCase p))
                 infiniteScrollPatterns"
  assume "\<forall>x \<in> set (querySelectorAll doc buttonSelector). \<forall>q \<in> set infiniteScrollPatterns.
          \<not> includesStr (toLowerCase (getElementText doc x)) (toLowerCase q)"
  then have "List.find ?P (querySelectorAll doc buttonSelector) = None"
    by (auto simp: find_None_iff list_ex_iff)
  then show "findInfiniteScrollButton doc = None"
    by (simp add: findInfiniteScrollButton_find)
qed

lemma loadMoreDoc_buttons: "querySelectorAll loadMoreDoc buttonSelector = [0]"
  by (simp add: loadMoreDoc_def shown_def buttonSelector_def dom_defs str_defs)

lemma loadMoreDoc_text: "toLowerCase (getElementText loadMoreDoc 0) = ascii ''load more''"
  by (simp add: loadMoreDoc_def shown_def dom_defs str_defs ext_defs)

lemma loadMoreDoc_url: "getElementUrl loadMoreDoc 0 = Null"
  by (simp add: loadMoreDoc_def shown_def dom_defs str_defs ext_defs)

theorem findInfiniteScrollButton_first_phrase_witness:
  "0 \<in> set (querySelectorAll loadMoreDoc buttonSelector)
   \<and> ascii ''load more'' \<in> set infiniteScrollPatterns
   \<and> toLowerCase (getElementText loadMoreDoc 0) = [] @ toLowerCase (ascii ''load more'') @ []
   \<and> findInfiniteScrollButton loadMoreDoc =
       Some \<lparr>element = Some 0, url = Str (locationHref loadMoreDoc), type = InfiniteScroll,
             confidence = 7 / 10, clickOnly = None, isLoadMore = Some True\<rparr>
   \<and> querySelectorAll priorityDoc buttonSelector = [0]
   \<and> findInfiniteScrollButton priorityDoc = None"
proof -
  have lower: "toLowerCase (ascii ''load more'') = ascii ''load more''"
    by (simp add: str_defs)
  have pat: "ascii ''load more'' \<in> set infiniteScrollPatterns"
    by (simp add: infiniteScrollPatterns_def)
  have q: "querySelectorAll priorityDoc buttonSelector = [0]"
    by (simp add: priorityDoc_def shown_def buttonSelector_def dom_defs str_defs)
  have t: "toLowerCase (getElementText priorityDoc 0) = ascii ''next''"
    by (simp add: priorityDoc_def shown_def dom_defs str_defs ext_defs)
  have none: "\<forall>q \<in> set infiniteScrollPatterns. \<not> includesStr (ascii ''next'') (toLowerCase q)"
    by (simp add: infiniteScrollPatterns_def str_defs)
  show ?thesis
    using findInfiniteScrollButton_first_phrase [where b = 0 and doc = loadMoreDoc
        and p = "ascii ''load more''" and pre = "[]" and post = "[]" and x = 0]
      findInfiniteScrollButton_first_phrase [where b = 0 and doc = priorityDoc
        and p = "ascii ''load more''" and pre = "[]" and post = "[]" and x = 0]
      loadMoreDoc_buttons loadMoreDoc_text loadMoreDoc_url lower pat q t none
    by simp
qed

section \<open>Class and id patterns\<close>

lemma findByClassId_find:
  "findByClassId doc =
     firstSome
       (\<lambda>pattern.
          map_option
            (\<lambda>e. \<lparr>element = Some e, url = getElementUrl doc e, type = ClassId,
                   confidence = 8 / 10, clickOnly = Some (getElementUrl doc e = Null),
                   isLoadMore = None\<rparr>)
            (List.find
               (\<lambda>e. test pattern (classIdOf doc e) \<and> isValidNextPageElement doc (Some e))
               (querySelectorAll doc clickableSelector)))
       classIdPatterns"
  apply (simp only: findByClassId_def Let_def url_or_null)
  apply (simp only: getElementUrl_truthy firstSome_find2)
  apply simp
  done

lemma forwardHiddenNextDoc_elems:
  "querySelectorAll forwardHiddenNextDoc clickableSelector = [0, 1]"
  by (simp add: forwardHiddenNextDoc_def shown_def clickableSelector_def dom_defs str_defs)

lemma forwardHiddenNextDoc_classIds:
  "classIdOf forwardHiddenNextDoc 0 = ascii ''forward ''"
  "classIdOf forwardHiddenNextDoc 1 = ascii ''next ''"
  by (simp_all add: forwardHiddenNextDoc_def shown_def classIdOf_def dom_defs str_defs)

lemma classId_tests:
  "\<not> test (classIdPatterns ! 0) (ascii ''forward '')"
  "test (classIdPatterns ! 3) (ascii ''forward '')"
  "test (classIdPatterns ! 0) (ascii ''next '')"
  by (simp_all add: classIdPatterns_def str_defs)

lemma forwardHiddenNextDoc_result:
  "findByClassId forwardHiddenNextDoc =
     Some \<lparr>element = Some 0, url = Str (ascii ''https://x/a''), type = ClassId,
           confidence = 8 / 10, clickOnly = Some False, isLoadMore = None\<rparr>"
  by (simp add: forwardHiddenNextDoc_def shown_def findByClassId_def clickableSelector_def
      classIdOf_def classIdPatterns_def dom_defs str_defs ext_defs)

text \<open>
  C10, as it is stated, fails: the first link matches only \<^verbatim>\<open>/forward/i\<close>, the second
  link matches \<^verbatim>\<open>/next/i\<close>, the first pattern of the list, and the candidate is the first
  link all the same, because the second link does not pass the validity gate.
\<close>

theorem findByClassId_skips_invalid_match:
  "querySelectorAll forwardHiddenNextDoc clickableSelector = [0, 1]
   \<and> \<not> test (classIdPatterns ! 0) (classIdOf forwardHiddenNextDoc 0)
   \<and> test (classIdPatterns ! 3) (classIdOf forwardHiddenNextDoc 0)
   \<and> test (classIdPatterns ! 0) (classIdOf forwardHiddenNextDoc 1)
   \<and> findByClassId forwardHiddenNextDoc =
       Some \<lparr>element = Some 0, url = Str (ascii ''https://x/a''), type = ClassId,
             confidence = 8 / 10, clickOnly = Some False, isLoadMore = None\<rparr>"
  using forwardHiddenNextDoc_elems forwardHiddenNextDoc_classIds classId_tests
    forwardHiddenNextDoc_result
  by simp

text \<open>
  The patterns are tested on \<^verbatim>\<open>`${element.className} ${element.id}`\<close>. On an SVG element
  \<^verbatim>\<open>className\<close> is an object, the string starts with \<^verbatim>\<open>[object SVGAnimatedString]\<close>, and an
  SVG link of class \<^verbatim>\<open>next\<close> matches no pattern.
\<close>

lemma svgNextDoc_classId:
  "classIdOf svgNextDoc 0 = ascii ''[object SVGAnimatedString] ''"
  "findByClassId svgNextDoc = None"
  by (simp_all add: svgNextDoc_def shown_def findByClassId_def clickableSelector_def
      classIdOf_def classIdPatterns_def dom_defs str_defs ext_defs)

text \<open>
  C10, amended. \<^verbatim>\<open>findByClassId\<close> goes through the patterns first and through the
  elements second, and an element counts for a pattern when the pattern matches the
  string \<^verbatim>\<open>`${element.className} ${element.id}`\<close> and the element passes the validity gate. When no clickable element counts for the patterns before the
  \<open>k\<close>-th, and \<open>e\<close> is the first clickable element in document order that counts for
  the \<open>k\<close>-th pattern, then \<open>e\<close> is the candidate, also when elements before \<open>e\<close> in
  the document count for later patterns.
\<close>

theorem findByClassId_pattern_priority:
  assumes "k < length classIdPatterns"
    and "\<forall>j<k. \<forall>x \<in> set (querySelectorAll doc clickableSelector).
           \<not> (test (classIdPatterns ! j) (classIdOf doc x) \<and> isValidNextPageElement doc (Some x))"
    and "e \<in> set (querySelectorAll doc clickableSelector)"
    and "test (classIdPatterns ! k) (classIdOf doc e)"
    and "isValidNextPageElement doc (Some e)"
    and "\<forall>x \<in> set (querySelectorAll doc clickableSelector). x < e \<longrightarrow>
           \<not> (test (classIdPatterns ! k) (classIdOf doc x) \<and> isValidNextPageElement doc (Some x))"
  shows "findByClassId doc =
           Some \<lparr>element = Some e, url = getElementUrl doc e, type = ClassId,
                 confidence = 8 / 10, clickOnly = Some (getElementUrl doc e = Null),
                 isLoadMore = None\<rparr>"
proof -
  let ?P = "\<lambda>pattern e. test pattern (classIdOf doc e) \<and> isValidNextPageElement doc (Some e)"
  let ?elems = "querySelectorAll doc clickableSelector"
  have earlier: "\<forall>j<k. List.find (?P (classIdPatterns ! j)) ?elems = None"
    using assms(2) by (auto simp: find_None_iff)
  have "List.find (?P (classIdPatterns ! k)) ?elems = Some e"
    using assms(3-6) querySelectorAll_sorted [of doc clickableSelector]
    by (intro find_first_sorted) auto
  with earlier assms(1) show ?thesis
    unfolding findByClassId_find
    by (intro firstSome_nth [of k]) auto
qed

lemma forwardNextDoc_elems: "querySelectorAll forwardNextDoc clickableSelector = [0, 1]"
  by (simp add: forwardNextDoc_def shown_def clickableSelector_def dom_defs str_defs)

lemma forwardNextDoc_classIds:
  "classIdOf forwardNextDoc 0 = ascii ''forward ''"
  "classIdOf forwardNextDoc 1 = ascii ''next ''"
  by (simp_all add: forwardNextDoc_def shown_def classIdOf_def dom_defs str_defs)

theorem findByClassId_pattern_priority_witness:
  "(0::nat) < length classIdPatterns
   \<and> querySelectorAll forwardNextDoc clickableSelector = [0, 1]
   \<and> test (classIdPatterns ! 3) (classIdOf forwardNextDoc 0)
   \<and> isValidNextPageElement forwardNextDoc (Some 0)
   \<and> \<not> test (classIdPatterns ! 0) (classIdOf forwardNextDoc 0)
   \<and> test (classIdPatterns ! 0) (classIdOf forwardNextDoc 1)
   \<and> isValidNextPageElement forwardNextDoc (Some 1)
   \<and> findByClassId forwardNextDoc =
       Some \<lparr>element = Some 1, url = Str (ascii ''https://x/b''), type = ClassId,
             confidence = 8 / 10, clickOnly = Some False, isLoadMore = None\<rparr>"
proof -
  have len: "(0::nat) < length classIdPatterns" by (simp add: classIdPatterns_def)
  have v0: "isValidNextPageElement forwardNextDoc (Some 0)"
    by (simp add: forwardNextDoc_def shown_def isValidNextPageElement_def dom_defs str_defs)
  have v1: "isValidNextPageElement forwardNextDoc (Some 1)"
    by (simp add: forwardNextDoc_def shown_def isValidNextPageElement_def dom_defs str_defs)
  have u: "getElementUrl forwardNextDoc 1 = Str (ascii ''https://x/b'')"
    by (simp add: forwardNextDoc_def shown_def dom_defs str_defs ext_defs)
  show ?thesis
    using findByClassId_pattern_priority [of 0 forwardNextDoc 1]
      len v0 v1 u forwardNextDoc_elems forwardNextDoc_classIds classId_tests
    by simp
qed

section \<open>Numbered pagination\<close>

lemma findNumberedPagination_Some_iff:
  "findNumberedPagination doc = Some c \<longleftrightarrow>
     (\<exists>pre sel post. paginationSelectors = pre @ sel # post
        \<and> (\<forall>s \<in> set pre. numberedIn doc s = None) \<and> numberedIn doc sel = Some c)"
proof
  assume "findNumberedPagination doc = Some c"
  then show "\<exists>pre sel post. paginationSelectors = pre @ sel # post
        \<and> (\<forall>s \<in> set pre. numberedIn doc s = None) \<and> numberedIn doc sel = Some c"
    unfolding findNumberedPagination_def by (rule firstSome_split)
next
  assume "\<exists>pre sel post. paginationSelectors = pre @ sel # post
        \<and> (\<forall>s \<in> set pre. numberedIn doc s = None) \<and> numberedIn doc sel = Some c"
  then obtain pre sel post where a: "paginationSelectors = pre @ sel # post"
    "\<forall>s \<in> set pre. numberedIn doc s = None" "numberedIn doc sel = Some c"
    by blast
  from a(2) have "firstSome (numberedIn doc) pre = None" by (simp add: firstSome_None)
  with a(3) show "findNumberedPagination doc = Some c"
    unfolding findNumberedPagination_def a(1) by (simp add: firstSome_append)
qed

lemma twoContainersDoc_pagination:
  "querySelector twoContainersDoc [Only [Class ''pagination'']] = Some 0"
  "numberedIn twoContainersDoc [Only [Class ''pagination'']] = None"
  by (simp_all add: twoContainersDoc_def shown_def numberedIn_def linkSelector_def
      isCurrentLink_def dom_defs str_defs)

lemma twoContainersDoc_pager:
  "numberedIn twoContainersDoc [Only [Class ''pager'']] =
     Some \<lparr>element = Some 5, url = Str (ascii ''https://x/3''), type = NumberedPagination,
           confidence = 95 / 100, clickOnly = None, isLoadMore = None\<rparr>"
  by (simp add: twoContainersDoc_def shown_def numberedIn_def linkSelector_def
      isCurrentLink_def nextIndicator_def dom_defs str_defs ext_defs)

text \<open>
  C6, as the spec states it, fails: the first selector whose container exists is
  \<^verbatim>\<open>.pagination\<close>, that container has no link marked as current, and the matcher still
  returns the link after the current one of the \<^verbatim>\<open>.pager\<close> container.
\<close>

theorem findNumberedPagination_goes_on:
  "querySelector twoContainersDoc (paginationSelectors ! 0) = Some 0
   \<and> numberedIn twoContainersDoc (paginationSelectors ! 0) = None
   \<and> findNumberedPagination_spec twoContainersDoc = None
   \<and> findNumberedPagination twoContainersDoc =
       Some \<lparr>element = Some 5, url = Str (ascii ''https://x/3''), type = NumberedPagination,
             confidence = 95 / 100, clickOnly = None, isLoadMore = None\<rparr>"
  using twoContainersDoc_pagination twoContainersDoc_pager
  by (simp add: paginationSelectors_def findNumberedPagination_def findNumberedPagination_spec_def)

text \<open>
  C6, amended. The matcher tries the container selectors in the order of the list. For
  one selector it takes the first element matching it, the \<^verbatim>\<open>a[href]\<close> links inside, and
  the first of these links that is marked as current (class \<^verbatim>\<open>current\<close> or \<^verbatim>\<open>active\<close>,
  \<^verbatim>\<open>aria-current="page"\<close>, or a \<^verbatim>\<open>disabled\<close> attribute); when a link follows it and the
  text of that link is all digits, or contains \<^verbatim>\<open>next\<close> in any letter case or one of
  the three glyphs of the source expression, the following link is the
  candidate of the selector, of type numbered-pagination. A selector without container
  or without candidate is passed over, and the result is the candidate of the first
  selector that has one.
\<close>

theorem findNumberedPagination_scan:
  "(findNumberedPagination doc = Some c \<longleftrightarrow>
      (\<exists>pre sel post. paginationSelectors = pre @ sel # post
         \<and> (\<forall>s \<in> set pre. numberedIn doc s = None) \<and> numberedIn doc sel = Some c))
   \<and> (numberedIn doc sel = Some c \<longleftrightarrow>
      (\<exists>container links k nextText.
         querySelector doc sel = Some container
         \<and> links = querySelectorAllIn doc container linkSelector
         \<and> Suc k < length links
         \<and> isCurrentLink doc (links ! k)
         \<and> (\<forall>j<k. \<not> isCurrentLink doc (links ! j))
         \<and> nextText = getElementText doc (links ! Suc k)
         \<and> ((nextText \<noteq> [] \<and> list_all isDigit nextText)
             \<or> (\<exists>before m after. nextText = before @ m @ after
                    \<and> map (canonUnit True) m = ascii ''NEXT'')
             \<or> 8250 \<in> set nextText \<or> 8594 \<in> set nextText \<or> 187 \<in> set nextText)
         \<and> c = \<lparr>element = Some (links ! Suc k), url = href (el doc (links ! Suc k)),
                  type = NumberedPagination, confidence = 95 / 100,
                  clickOnly = None, isLoadMore = None\<rparr>))"
  unfolding findNumberedPagination_Some_iff numberedIn_Some_iff test_digits test_nextIndicator
  by simp

lemma numberedDoc_others:
  "findByRelAttribute numberedDoc = None"
  "findByTextContent numberedDoc = None"
  "findByClassId numberedDoc = None"
  "findByAriaLabel numberedDoc = None"
     apply (simp add: numberedDoc_def shown_def findByRelAttribute_def relSelector_def
        relPatterns_def dom_defs str_defs)
    apply (simp add: numberedDoc_def shown_def findByTextContent_def clickableSelector_def
        textPatterns_def dom_defs str_defs ext_defs)
   apply (simp add: numberedDoc_def shown_def findByClassId_def clickableSelector_def
        classIdOf_def classIdPatterns_def dom_defs str_defs ext_defs)
  apply (simp add: numberedDoc_def shown_def findByAriaLabel_def ariaSelector_def dom_defs str_defs)
  done

lemma numberedDoc_links:
  "querySelector numberedDoc [Only [Class ''pagination'']] = Some 0"
  "querySelectorAllIn numberedDoc 0 linkSelector = [1, 2, 3, 4, 5]"
  by (simp_all add: numberedDoc_def shown_def linkSelector_def dom_defs str_defs)

lemma numberedDoc_current:
  "\<not> isCurrentLink numberedDoc 1" "\<not> isCurrentLink numberedDoc 2" "isCurrentLink numberedDoc 3"
  by (simp_all add: numberedDoc_def shown_def isCurrentLink_def dom_defs str_defs)

lemma numberedDoc_next:
  "getElementText numberedDoc 4 = ascii ''4''"
  "href (el numberedDoc 4) = Str (ascii ''https://x/4'')"
  by (simp_all add: numberedDoc_def shown_def dom_defs str_defs ext_defs)

theorem findNumberedPagination_scan_witness:
  "querySelector numberedDoc [Only [Class ''pagination'']] = Some 0
   \<and> querySelectorAllIn numberedDoc 0 linkSelector = [1, 2, 3, 4, 5]
   \<and> isCurrentLink numberedDoc 3
   \<and> getElementText numberedDoc 4 = ascii ''4''
   \<and> numberedIn numberedDoc [Only [Class ''pagination'']] = Some numberedCandidate
   \<and> findNumberedPagination numberedDoc = Some numberedCandidate
   \<and> findNextPage numberedDoc = Some numberedCandidate"
proof -
  let ?sel = "[Only [Class ''pagination'']]"
  note scan = findNumberedPagination_scan [of numberedDoc numberedCandidate ?sel]
  have digits: "ascii ''4'' \<noteq> [] \<and> list_all isDigit (ascii ''4'')"
    by (simp add: str_defs)
  have "\<exists>container links k nextText.
         querySelector numberedDoc ?sel = Some container
         \<and> links = querySelectorAllIn numberedDoc container linkSelector
         \<and> Suc k < length links
         \<and> isCurrentLink numberedDoc (links ! k)
         \<and> (\<forall>j<k. \<not> isCurrentLink numberedDoc (links ! j))
         \<and> nextText = getElementText numberedDoc (links ! Suc k)
         \<and> ((nextText \<noteq> [] \<and> list_all isDigit nextText)
             \<or> (\<exists>before m after. nextText = before @ m @ after
                    \<and> map (canonUnit True) m = ascii ''NEXT'')
             \<or> 8250 \<in> set nextText \<or> 8594 \<in> set nextText \<or> 187 \<in> set nextText)
         \<and> numberedCandidate =
               \<lparr>element = Some (links ! Suc k), url = href (el numberedDoc (links ! Suc k)),
                type = NumberedPagination, confidence = 95 / 100,
                clickOnly = None, isLoadMore = None\<rparr>"
    apply (rule exI [of _ 0])
    apply (rule exI [of _ "[1, 2, 3, 4, 5]"])
    apply (rule exI [of _ 2])
    apply (rule exI [of _ "ascii ''4''"])
    using numberedDoc_links numberedDoc_current numberedDoc_next digits
    apply (simp add: numberedCandidate_def less_2_cases_iff)
    done
  with scan have inSel: "numberedIn numberedDoc ?sel = Some numberedCandidate"
    by blast
  have "paginationSelectors = [] @ ?sel # tl paginationSelectors"
    by (simp add: paginationSelectors_def)
  with inSel have "\<exists>pre sel post. paginationSelectors = pre @ sel # post
         \<and> (\<forall>s \<in> set pre. numberedIn numberedDoc s = None)
         \<and> numberedIn numberedDoc sel = Some numberedCandidate"
    by (metis empty_iff list.set(1))
  with scan have found: "findNumberedPagination numberedDoc = Some numberedCandidate"
    by blast
  with numberedDoc_others have "findNextPage numberedDoc = Some numberedCandidate"
    by (simp add: findNextPage_unfold)
  with found inSel numberedDoc_links numberedDoc_current numberedDoc_next show ?thesis
    by simp
qed

section \<open>Pagination info\<close>

lemma halvings_small: "n < 2 ^ 53 \<Longrightarrow> halvings n = 0"
  by (subst halvings.simps) simp

lemma toNumber_exact: "n < 2 ^ 53 \<Longrightarrow> toNumber negative n = Num negative n"
proof -
  assume n: "n < 2 ^ 53"
  then have "roundTiesToEven n = n" by (simp add: roundTiesToEven_def halvings_small)
  moreover have "(2::nat) ^ 53 \<le> 2 ^ 1024" by (rule power_increasing) simp_all
  ultimately show ?thesis using n by (simp add: toNumber_def)
qed

lemma digit_facts:
  assumes "isDigit c"
  shows "\<not> isJsSpace c" "[c] \<noteq> ascii ''-''" "[c] \<noteq> ascii ''+''" "c \<noteq> 120" "c \<noteq> 88"
    "digitValue 10 c = Some (c - 48)"
  using assms
  by (auto simp: isDigit_def isJsSpace_def isLineTerminator_def ascii_def digitValue_def Let_def)

lemma parseInt_digits:
  assumes "s \<noteq> []" and "list_all isDigit s"
  shows "parseInt s = toNumber False (digitsValue 10 0 s)"
proof -
  from assms obtain c cs where s: "s = c # cs" and c: "isDigit c" and cs: "list_all isDigit cs"
    by (cases s) auto
  have hex: "take 2 (c # cs) \<noteq> ascii ''0x'' \<and> take 2 (c # cs) \<noteq> ascii ''0X''"
  proof (cases cs)
    case Nil
    then show ?thesis by (simp add: ascii_def)
  next
    case (Cons d ds)
    with cs have "isDigit d" by simp
    with Cons digit_facts(4,5) [of d] show ?thesis by (auto simp: ascii_def)
  qed
  from c digit_facts [of c] have c': "\<not> isJsSpace c" "[c] \<noteq> ascii ''-''" "[c] \<noteq> ascii ''+''"
    "digitValue 10 c = Some (c - 48)" by simp_all
  show ?thesis
    unfolding s parseInt_def Let_def
    using c' hex by simp
qed

text \<open>
  C8. \<^verbatim>\<open>getPaginationInfo\<close>: the current page is the number that \<^verbatim>\<open>parseInt\<close> reads in the
  text of the first element in document order that matches
  \<^verbatim>\<open>.current, .active, [aria-current="page"]\<close>, and 1 when there is no such element or its
  text does not parse (\<^verbatim>\<open>NaN\<close>); the total is absent exactly when no link matching
  \<^verbatim>\<open>.pagination a, .pager a, .page-numbers a\<close> has a text that parses, and otherwise it is
  one of the parsed numbers, not \<^verbatim>\<open>NaN\<close>, and no parsed number is greater; \<open>hasNext\<close> says
  whether \<^verbatim>\<open>findNextPage\<close> finds a candidate; \<open>hasPrevious\<close> says whether an element
  matches \<^verbatim>\<open>a[rel="prev"], .prev, .previous\<close>. On a text of decimal digits \<^verbatim>\<open>parseInt\<close>
  reads the number that the digits denote, exactly when it is below \<open>2\<^sup>5\<^sup>3\<close>, and rounded
  to a double otherwise.
\<close>

theorem getPaginationInfo_fields:
  "((\<forall>i<length (elements doc). \<not> matchesSel doc currentSelector i) \<longrightarrow>
       currentPage (getPaginationInfo doc) = Num False 1)
   \<and> (e < length (elements doc) \<and> matchesSel doc currentSelector e
        \<and> (\<forall>j<e. \<not> matchesSel doc currentSelector j) \<longrightarrow>
       currentPage (getPaginationInfo doc) =
         (if parseInt (getElementText doc e) = NaN then Num False 1
          else parseInt (getElementText doc e)))
   \<and> (totalPages (getPaginationInfo doc) = None \<longleftrightarrow>
        (\<forall>l \<in> set (querySelectorAll doc pageLinkSelector). parseInt (getElementText doc l) = NaN))
   \<and> (totalPages (getPaginationInfo doc) = Some m \<longrightarrow>
        m \<noteq> NaN
        \<and> (\<exists>l \<in> set (querySelectorAll doc pageLinkSelector). parseInt (getElementText doc l) = m)
        \<and> (\<forall>l \<in> set (querySelectorAll doc pageLinkSelector).
              parseInt (getElementText doc l) \<noteq> NaN \<longrightarrow>
              \<not> numLess m (parseInt (getElementText doc l))))
   \<and> (hasNext (getPaginationInfo doc) \<longleftrightarrow> findNextPage doc \<noteq> None)
   \<and> (hasPrevious (getPaginationInfo doc) \<longleftrightarrow>
        (\<exists>i<length (elements doc). matchesSel doc previousSelector i))
   \<and> (s \<noteq> [] \<and> list_all isDigit s \<longrightarrow>
        parseInt s = toNumber False (digitsValue 10 0 s)
        \<and> (digitsValue 10 0 s < 2 ^ 53 \<longrightarrow> parseInt s = Num False (digitsValue 10 0 s)))"
proof (intro conjI impI)
  assume "\<forall>i<length (elements doc). \<not> matchesSel doc currentSelector i"
  then have "querySelector doc currentSelector = None" by (simp add: querySelector_None_iff)
  then show "currentPage (getPaginationInfo doc) = Num False 1"
    by (simp add: getPaginationInfo_def Let_def)
next
  assume "e < length (elements doc) \<and> matchesSel doc currentSelector e
        \<and> (\<forall>j<e. \<not> matchesSel doc currentSelector j)"
  then have "querySelector doc currentSelector = Some e" by (simp add: querySelector_Some_iff)
  then show "currentPage (getPaginationInfo doc) =
         (if parseInt (getElementText doc e) = NaN then Num False 1
          else parseInt (getElementText doc e))"
    by (simp add: getPaginationInfo_def Let_def isNaN_def)
next
  show "totalPages (getPaginationInfo doc) = None \<longleftrightarrow>
        (\<forall>l \<in> set (querySelectorAll doc pageLinkSelector). parseInt (getElementText doc l) = NaN)"
    by (auto simp: getPaginationInfo_def Let_def isNaN_def filter_empty_conv)
next
  let ?nums = "filter (\<lambda>num. \<not> isNaN num)
                 (map (\<lambda>link. parseInt (getElementText doc link))
                    (querySelectorAll doc pageLinkSelector))"
  assume "totalPages (getPaginationInfo doc) = Some m"
  then have ne: "?nums \<noteq> []" and m: "m = mathMax ?nums"
    by (auto simp: getPaginationInfo_def Let_def split: if_splits)
  have "NaN \<notin> set ?nums" by (simp add: isNaN_def)
  with ne have mem: "mathMax ?nums \<in> set ?nums" by (rule mathMax_member)
  with m show "m \<noteq> NaN" by (auto simp: isNaN_def)
  from mem m show "\<exists>l \<in> set (querySelectorAll doc pageLinkSelector).
                     parseInt (getElementText doc l) = m"
    by auto
  from mathMax_greatest [of ?nums] m
  show "\<forall>l \<in> set (querySelectorAll doc pageLinkSelector).
              parseInt (getElementText doc l) \<noteq> NaN \<longrightarrow>
              \<not> numLess m (parseInt (getElementText doc l))"
    by (auto simp: isNaN_def)
next
  show "hasNext (getPaginationInfo doc) \<longleftrightarrow> findNextPage doc \<noteq> None"
    by (simp add: getPaginationInfo_def Let_def)
next
  have "hasPrevious (getPaginationInfo doc) \<longleftrightarrow> querySelector doc previousSelector \<noteq> None"
    by (simp add: getPaginationInfo_def Let_def)
  then show "hasPrevious (getPaginationInfo doc) \<longleftrightarrow>
        (\<exists>i<length (elements doc). matchesSel doc previousSelector i)"
    by (simp add: querySelector_None_iff)
next
  assume "s \<noteq> [] \<and> list_all isDigit s"
  then show "parseInt s = toNumber False (digitsValue 10 0 s)"
    by (simp add: parseInt_digits)
next
  assume "s \<noteq> [] \<and> list_all isDigit s" and "digitsValue 10 0 s < 2 ^ 53"
  then show "parseInt s = Num False (digitsValue 10 0 s)"
    by (simp add: parseInt_digits toNumber_exact)
qed

text \<open>
  Beyond \<open>2\<^sup>5\<^sup>3\<close> the number is the nearest double: \<^verbatim>\<open>parseInt("9007199254740993")\<close> is
  \<open>9007199254740992\<close>.
\<close>

lemma parseInt_rounds: "parseInt (ascii ''9007199254740993'') = Num False 9007199254740992"
proof -
  have v: "digitsValue 10 0 (ascii ''9007199254740993'') = 9007199254740993"
    by (simp add: ascii_def digitValue_def Let_def)
  have "halvings 4503599627370496 = 0" by (rule halvings_small) simp
  then have h: "halvings 9007199254740993 = 1" by (subst halvings.simps) simp
  have "roundTiesToEven 9007199254740993 = 9007199254740992"
    by (simp add: roundTiesToEven_def h)
  moreover have "(9007199254740992::nat) < 2 ^ 1024"
  proof -
    have "(9007199254740992::nat) = 2 ^ 53" by simp
    also have "\<dots> < 2 ^ 1024" by (rule power_strict_increasing) simp_all
    finally show ?thesis .
  qed
  ultimately have "toNumber False 9007199254740993 = Num False 9007199254740992"
    by (simp add: toNumber_def del: halvings.simps)
  moreover have "parseInt (ascii ''9007199254740993'')
                   = toNumber False (digitsValue 10 0 (ascii ''9007199254740993''))"
    by (rule parseInt_digits) (simp_all add: ascii_def isDigit_def)
  ultimately show ?thesis by (simp only: v)
qed

lemma threePagesDoc_current:
  "\<not> matchesSel threePagesDoc currentSelector 0"
  "\<not> matchesSel threePagesDoc currentSelector 1"
  "matchesSel threePagesDoc currentSelector 2"
  by (simp_all add: threePagesDoc_def shown_def currentSelector_def dom_defs str_defs)

lemma threePagesDoc_text:
  "getElementText threePagesDoc 1 = ascii ''1''"
  "getElementText threePagesDoc 2 = ascii ''2''"
  "getElementText threePagesDoc 3 = ascii ''3''"
  by (simp_all add: threePagesDoc_def shown_def dom_defs str_defs ext_defs)

lemma parseInt_small:
  "parseInt (ascii ''1'') = Num False 1"
  "parseInt (ascii ''2'') = Num False 2"
  "parseInt (ascii ''3'') = Num False 3"
  using parseInt_digits [of "ascii ''1''"] parseInt_digits [of "ascii ''2''"]
    parseInt_digits [of "ascii ''3''"]
  by (simp_all add: ascii_def isDigit_def digitValue_def Let_def toNumber_exact)

lemma threePagesDoc_texts:
  "parseInt (getElementText threePagesDoc 1) = Num False 1"
  "parseInt (getElementText threePagesDoc 2) = Num False 2"
  "parseInt (getElementText threePagesDoc 3) = Num False 3"
  by (simp_all only: threePagesDoc_text parseInt_small)

lemma threePagesDoc_links: "querySelectorAll threePagesDoc pageLinkSelector = [1, 2, 3]"
  by (simp add: threePagesDoc_def shown_def pageLinkSelector_def dom_defs str_defs)

lemma threePagesDoc_total: "totalPages (getPaginationInfo threePagesDoc) = Some (Num False 3)"
  using threePagesDoc_links threePagesDoc_texts
  by (simp add: getPaginationInfo_def Let_def isNaN_def mathMax_def numLess_def)

lemma threePagesDoc_previous: "querySelector threePagesDoc previousSelector = None"
  by (simp add: threePagesDoc_def shown_def previousSelector_def dom_defs str_defs)

theorem getPaginationInfo_fields_witness:
  "(2::nat) < length (elements threePagesDoc)
   \<and> matchesSel threePagesDoc currentSelector 2
   \<and> \<not> matchesSel threePagesDoc currentSelector 0
   \<and> \<not> matchesSel threePagesDoc currentSelector 1
   \<and> currentPage (getPaginationInfo threePagesDoc) = Num False 2
   \<and> totalPages (getPaginationInfo threePagesDoc) = Some (Num False 3)
   \<and> querySelectorAll threePagesDoc pageLinkSelector = [1, 2, 3]
   \<and> \<not> hasPrevious (getPaginationInfo threePagesDoc)
   \<and> list_all isDigit (ascii ''3'')
   \<and> digitsValue 10 0 (ascii ''3'') = 3
   \<and> parseInt (ascii ''3'') = Num False 3
   \<and> length (elements loadMoreDoc) = 1
   \<and> \<not> matchesSel loadMoreDoc currentSelector 0
   \<and> currentPage (getPaginationInfo loadMoreDoc) = Num False 1
   \<and> querySelectorAll loadMoreDoc pageLinkSelector = []
   \<and> totalPages (getPaginationInfo loadMoreDoc) = None"
proof -
  have len1: "length (elements loadMoreDoc) = 1" by (simp add: loadMoreDoc_def)
  have cur1: "\<not> matchesSel loadMoreDoc currentSelector 0"
    by (simp add: loadMoreDoc_def shown_def currentSelector_def dom_defs str_defs)
  have links1: "querySelectorAll loadMoreDoc pageLinkSelector = []"
    by (simp add: loadMoreDoc_def shown_def pageLinkSelector_def dom_defs str_defs)
  note lone = getPaginationInfo_fields [of loadMoreDoc 0 NaN "[]"]
  from lone len1 cur1 have c1: "currentPage (getPaginationInfo loadMoreDoc) = Num False 1"
    by simp
  from lone links1 have t1: "totalPages (getPaginationInfo loadMoreDoc) = None"
    by simp
  have len: "length (elements threePagesDoc) = 4" by (simp add: threePagesDoc_def)
  have prev: "\<not> (\<exists>i<length (elements threePagesDoc). matchesSel threePagesDoc previousSelector i)"
    using threePagesDoc_previous by (simp only: querySelector_None_iff) simp
  have cur: "\<forall>j<2. \<not> matchesSel threePagesDoc currentSelector j"
    using threePagesDoc_current by (simp add: less_2_cases_iff)
  have dig: "ascii ''3'' \<noteq> []" "list_all isDigit (ascii ''3'')" "digitsValue 10 0 (ascii ''3'') = 3"
    by (simp_all add: ascii_def isDigit_def digitValue_def Let_def)
  have three: "(3::nat) < 2 ^ 53" by simp
  note main = getPaginationInfo_fields [of threePagesDoc 2 "Num False 3" "ascii ''3''"]
  from main cur threePagesDoc_current(3) len threePagesDoc_texts(2)
  have c: "currentPage (getPaginationInfo threePagesDoc) = Num False 2"
    by simp
  from main prev have p: "\<not> hasPrevious (getPaginationInfo threePagesDoc)" by blast
  from main dig(1,2) have "digitsValue 10 0 (ascii ''3'') < 2 ^ 53 \<longrightarrow>
      parseInt (ascii ''3'') = Num False (digitsValue 10 0 (ascii ''3''))"
    by blast
  with dig(3) three have d: "parseInt (ascii ''3'') = Num False 3" by simp
  from c p d len dig threePagesDoc_current threePagesDoc_total threePagesDoc_links
    len1 cur1 c1 links1 t1
  show ?thesis by simp
qed
section \<open>Elements that fail the validity gate\<close>

lemma findByTextContent_find:
  "findByTextContent doc =
     map_option
       (\<lambda>l. \<lparr>element = Some l, url = getElementUrl doc l, type = TextContent,
              confidence = 9 / 10, clickOnly = Some (getElementUrl doc l = Null),
              isLoadMore = None\<rparr>)
       (List.find
          (\<lambda>l. isValidNextPageElement doc (Some l)
               \<and> list_ex (\<lambda>p. test p (getElementText doc l)) textPatterns)
          (querySelectorAll doc clickableSelector))"
  apply (simp only: findByTextContent_def Let_def url_or_null)
  apply (simp only: getElementUrl_truthy firstSome_guarded firstSome_find)
  apply simp
  done

lemma findByAriaLabel_find:
  "findByAriaLabel doc =
     map_option
       (\<lambda>e. \<lparr>element = Some e, url = getElementUrl doc e, type = AriaLabel,
              confidence = 85 / 100, clickOnly = Some (getElementUrl doc e = Null),
              isLoadMore = None\<rparr>)
       (List.find
          (\<lambda>e. isValidNextPageElement doc (Some e)
               \<and> list_ex (\<lambda>p. test p (ariaLabelText doc e)) ariaPatterns)
          (querySelectorAll doc ariaSelector))"
  apply (simp only: findByAriaLabel_def Let_def url_or_null)
  apply (simp only: getElementUrl_truthy firstSome_guarded firstSome_find)
  apply simp
  done

lemma findByClassId_valid:
  assumes "findByClassId doc = Some c"
  shows "isValidNextPageElement doc (element c)"
proof -
  from assms obtain p where
    "map_option
       (\<lambda>e. \<lparr>element = Some e, url = getElementUrl doc e, type = ClassId,
              confidence = 8 / 10, clickOnly = Some (getElementUrl doc e = Null),
              isLoadMore = None\<rparr>)
       (List.find
          (\<lambda>e. test p (classIdOf doc e) \<and> isValidNextPageElement doc (Some e))
          (querySelectorAll doc clickableSelector)) = Some c"
    unfolding findByClassId_find by (blast dest: firstSome_Some)
  then show ?thesis by (auto simp: find_Some_iff)
qed

lemma findByRelAttribute_valid:
  assumes "findByRelAttribute doc = Some c"
  shows "isValidNextPageElement doc (element c)"
proof -
  from assms obtain relValue where
    "(let link = querySelector doc (relSelector relValue)
      in case link of
           None \<Rightarrow> None
         | Some l \<Rightarrow>
             if isValidNextPageElement doc link then
               Some \<lparr>element = Some l, url = href (el doc l), type = RelAttribute,
                     confidence = 1, clickOnly = None, isLoadMore = None\<rparr>
             else None) = Some c"
    unfolding findByRelAttribute_def by (blast dest: firstSome_Some)
  then show ?thesis by (auto simp: Let_def split: option.splits if_splits)
qed

lemma findByTextContent_valid:
  "findByTextContent doc = Some c \<Longrightarrow> isValidNextPageElement doc (element c)"
  by (auto simp: findByTextContent_find find_Some_iff)

lemma findByAriaLabel_valid:
  "findByAriaLabel doc = Some c \<Longrightarrow> isValidNextPageElement doc (element c)"
  by (auto simp: findByAriaLabel_find find_Some_iff)

lemma findByClassId_exists:
  assumes "e \<in> set (querySelectorAll doc clickableSelector)"
    and "p \<in> set classIdPatterns"
    and "test p (classIdOf doc e)"
    and "isValidNextPageElement doc (Some e)"
  shows "findByClassId doc \<noteq> None"
proof -
  from assms(1,3,4)
  have "List.find (\<lambda>e. test p (classIdOf doc e) \<and> isValidNextPageElement doc (Some e))
          (querySelectorAll doc clickableSelector) \<noteq> None"
    by (auto simp: find_None_iff)
  with assms(2) show ?thesis
    unfolding findByClassId_find firstSome_None by auto
qed

lemma findByRelAttribute_second:
  assumes "querySelector doc (relSelector (ascii ''next'')) = Some l"
    and "\<not> isValidNextPageElement doc (Some l)"
  shows "findByRelAttribute doc =
           (case querySelector doc (relSelector (ascii ''nofollow next'')) of
              None \<Rightarrow> None
            | Some m \<Rightarrow>
                if isValidNextPageElement doc (Some m) then
                  Some \<lparr>element = Some m, url = href (el doc m), type = RelAttribute,
                        confidence = 1, clickOnly = None, isLoadMore = None\<rparr>
                else None)"
  using assms
  by (simp add: findByRelAttribute_def relPatterns_def Let_def split: option.splits)

lemma skipDoc_rel:
  "querySelectorAll skipDoc (relSelector (ascii ''next'')) = [0, 1]"
  "querySelector skipDoc (relSelector (ascii ''next'')) = Some 0"
  "querySelector skipDoc (relSelector (ascii ''nofollow next'')) = None"
  by (simp_all add: skipDoc_def shown_def relSelector_def dom_defs str_defs)

lemma skipDoc_valid:
  "\<not> isValidNextPageElement skipDoc (Some 0)"
  "isValidNextPageElement skipDoc (Some 1)"
  by (simp_all add: skipDoc_def shown_def isValidNextPageElement_def dom_defs str_defs)

lemma skipDoc_findByRel: "findByRelAttribute skipDoc = None"
  using findByRelAttribute_second [of skipDoc 0] skipDoc_rel skipDoc_valid by simp

text \<open>
  C7, as the spec states it, fails for the rel-attribute matcher: the second anchor
  matches \<^verbatim>\<open>a[rel="next"]\<close> and is valid, yet the matcher gives up after the first,
  hidden one.
\<close>

theorem findByRelAttribute_first_element_only:
  "1 \<in> set (querySelectorAll skipDoc (relSelector (ascii ''next'')))
   \<and> isValidNextPageElement skipDoc (Some 1)
   \<and> findByRelAttribute skipDoc = None"
  using skipDoc_rel skipDoc_valid skipDoc_findByRel by simp

text \<open>
  C7, amended. The text-content and ARIA-label matchers return the first element in
  document order that both matches a pattern and passes the validity gate, so matching
  elements that fail the gate are passed over; the class/id matcher returns a valid
  candidate whenever some clickable element is valid and has a string
  \<^verbatim>\<open>`${element.className} ${element.id}`\<close> that a pattern matches. An element whose
  visibility is \<^verbatim>\<open>hidden\<close> fails the gate. The rel-attribute matcher looks at the first
  element for each rel value only: when the first \<^verbatim>\<open>rel="next"\<close> element fails the gate,
  for whatever reason, the matcher is left with the first \<^verbatim>\<open>rel="nofollow next"\<close>
  element, which it returns if that one passes the gate; and when the matcher returns
  nothing, \<^verbatim>\<open>findNextPage\<close> is the result of the five other matchers.
\<close>

theorem matchers_after_invalid_element:
  "(l \<in> set (querySelectorAll doc clickableSelector) \<and> p \<in> set textPatterns
      \<and> test p (getElementText doc l) \<and> isValidNextPageElement doc (Some l)
      \<and> (\<forall>x \<in> set (querySelectorAll doc clickableSelector). x < l \<longrightarrow>
            \<not> (isValidNextPageElement doc (Some x)
               \<and> (\<exists>q \<in> set textPatterns. test q (getElementText doc x))))
    \<longrightarrow> findByTextContent doc =
          Some \<lparr>element = Some l, url = getElementUrl doc l, type = TextContent,
                confidence = 9 / 10, clickOnly = Some (getElementUrl doc l = Null),
                isLoadMore = None\<rparr>)
   \<and> (a \<in> set (querySelectorAll doc ariaSelector) \<and> pa \<in> set ariaPatterns
      \<and> test pa (ariaLabelText doc a) \<and> isValidNextPageElement doc (Some a)
      \<and> (\<forall>x \<in> set (querySelectorAll doc ariaSelector). x < a \<longrightarrow>
            \<not> (isValidNextPageElement doc (Some x)
               \<and> (\<exists>q \<in> set ariaPatterns. test q (ariaLabelText doc x))))
    \<longrightarrow> findByAriaLabel doc =
          Some \<lparr>element = Some a, url = getElementUrl doc a, type = AriaLabel,
                confidence = 85 / 100, clickOnly = Some (getElementUrl doc a = Null),
                isLoadMore = None\<rparr>)
   \<and> (e \<in> set (querySelectorAll doc clickableSelector) \<and> pc \<in> set classIdPatterns
      \<and> test pc (classIdOf doc e) \<and> isValidNextPageElement doc (Some e)
    \<longrightarrow> (\<exists>c. findByClassId doc = Some c \<and> isValidNextPageElement doc (element c)))
   \<and> (visibility (el doc r) = ''hidden'' \<longrightarrow> \<not> isValidNextPageElement doc (Some r))
   \<and> (querySelector doc (relSelector (ascii ''next'')) = Some r
      \<and> \<not> isValidNextPageElement doc (Some r)
    \<longrightarrow> findByRelAttribute doc =
           (case querySelector doc (relSelector (ascii ''nofollow next'')) of
              None \<Rightarrow> None
            | Some m \<Rightarrow>
                if isValidNextPageElement doc (Some m) then
                  Some \<lparr>element = Some m, url = href (el doc m), type = RelAttribute,
                        confidence = 1, clickOnly = None, isLoadMore = None\<rparr>
                else None))
   \<and> (findByRelAttribute doc = None
    \<longrightarrow> findNextPage doc =
          (case findByTextContent doc of Some c \<Rightarrow> Some c | None \<Rightarrow>
          (case findByClassId doc of Some c \<Rightarrow> Some c | None \<Rightarrow>
          (case findByAriaLabel doc of Some c \<Rightarrow> Some c | None \<Rightarrow>
          (case findNumberedPagination doc of Some c \<Rightarrow> Some c | None \<Rightarrow>
             findInfiniteScrollButton doc)))))"
proof (intro conjI impI)
  let ?P = "\<lambda>l. isValidNextPageElement doc (Some l)
               \<and> list_ex (\<lambda>p. test p (getElementText doc l)) textPatterns"
  assume h: "l \<in> set (querySelectorAll doc clickableSelector) \<and> p \<in> set textPatterns
      \<and> test p (getElementText doc l) \<and> isValidNextPageElement doc (Some l)
      \<and> (\<forall>x \<in> set (querySelectorAll doc clickableSelector). x < l \<longrightarrow>
            \<not> (isValidNextPageElement doc (Some x)
               \<and> (\<exists>q \<in> set textPatterns. test q (getElementText doc x))))"
  then have "?P l" by (auto simp: list_ex_iff)
  moreover from h have "\<forall>x \<in> set (querySelectorAll doc clickableSelector). x < l \<longrightarrow> \<not> ?P x"
    by (auto simp: list_ex_iff)
  ultimately have "List.find ?P (querySelectorAll doc clickableSelector) = Some l"
    using h querySelectorAll_sorted [of doc clickableSelector]
    by (intro find_first_sorted) auto
  then show "findByTextContent doc =
          Some \<lparr>element = Some l, url = getElementUrl doc l, type = TextContent,
                confidence = 9 / 10, clickOnly = Some (getElementUrl doc l = Null),
                isLoadMore = None\<rparr>"
    by (simp add: findByTextContent_find)
next
  let ?P = "\<lambda>e. isValidNextPageElement doc (Some e)
               \<and> list_ex (\<lambda>p. test p (ariaLabelText doc e)) ariaPatterns"
  assume h: "a \<in> set (querySelectorAll doc ariaSelector) \<and> pa \<in> set ariaPatterns
      \<and> test pa (ariaLabelText doc a) \<and> isValidNextPageElement doc (Some a)
      \<and> (\<forall>x \<in> set (querySelectorAll doc ariaSelector). x < a \<longrightarrow>
            \<not> (isValidNextPageElement doc (Some x)
               \<and> (\<exists>q \<in> set ariaPatterns. test q (ariaLabelText doc x))))"
  then have "?P a" by (auto simp: list_ex_iff)
  moreover from h have "\<forall>x \<in> set (querySelectorAll doc ariaSelector). x < a \<longrightarrow> \<not> ?P x"
    by (auto simp: list_ex_iff)
  ultimately have "List.find ?P (querySelectorAll doc ariaSelector) = Some a"
    using h querySelectorAll_sorted [of doc ariaSelector]
    by (intro find_first_sorted) auto
  then show "findByAriaLabel doc =
          Some \<lparr>element = Some a, url = getElementUrl doc a, type = AriaLabel,
                confidence = 85 / 100, clickOnly = Some (getElementUrl doc a = Null),
                isLoadMore = None\<rparr>"
    by (simp add: findByAriaLabel_find)
next
  assume h: "e \<in> set (querySelectorAll doc clickableSelector) \<and> pc \<in> set classIdPatterns
      \<and> test pc (classIdOf doc e) \<and> isValidNextPageElement doc (Some e)"
  then have "findByClassId doc \<noteq> None" by (intro findByClassId_exists [of e doc pc]) auto
  then obtain c where "findByClassId doc = Some c" by auto
  with findByClassId_valid [of doc c]
  show "\<exists>c. findByClassId doc = Some c \<and> isValidNextPageElement doc (element c)" by blast
next
  assume "visibility (el doc r) = ''hidden''"
  then show "\<not> isValidNextPageElement doc (Some r)"
    by (simp add: isValidNextPageElement_def Let_def)
next
  assume h: "querySelector doc (relSelector (ascii ''next'')) = Some r
      \<and> \<not> isValidNextPageElement doc (Some r)"
  then show "findByRelAttribute doc =
           (case querySelector doc (relSelector (ascii ''nofollow next'')) of
              None \<Rightarrow> None
            | Some m \<Rightarrow>
                if isValidNextPageElement doc (Some m) then
                  Some \<lparr>element = Some m, url = href (el doc m), type = RelAttribute,
                        confidence = 1, clickOnly = None, isLoadMore = None\<rparr>
                else None)"
    by (intro findByRelAttribute_second) auto
next
  assume "findByRelAttribute doc = None"
  then show "findNextPage doc =
          (case findByTextContent doc of Some c \<Rightarrow> Some c | None \<Rightarrow>
          (case findByClassId doc of Some c \<Rightarrow> Some c | None \<Rightarrow>
          (case findByAriaLabel doc of Some c \<Rightarrow> Some c | None \<Rightarrow>
          (case findNumberedPagination doc of Some c \<Rightarrow> Some c | None \<Rightarrow>
             findInfiniteScrollButton doc))))"
    by (simp add: findNextPage_unfold)
qed

lemma skipDoc_queries:
  "querySelectorAll skipDoc clickableSelector = [0, 1]"
  "querySelectorAll skipDoc ariaSelector = [0, 1]"
  by (simp_all add: skipDoc_def shown_def clickableSelector_def ariaSelector_def dom_defs str_defs)

lemma skipDoc_texts:
  "getElementText skipDoc 1 = ascii ''Next''"
  "ariaLabelText skipDoc 1 = ascii ''Next''"
  "classIdOf skipDoc 1 = ascii ''next ''"
  "getElementUrl skipDoc 1 = Str (ascii ''https://x/2'')"
  "visibility (el skipDoc 0) = ''hidden''"
  by (simp_all add: skipDoc_def shown_def ariaLabelText_def classIdOf_def dom_defs str_defs ext_defs)

lemma skipDoc_patterns:
  "textPatterns ! 0 \<in> set textPatterns"
  "test (textPatterns ! 0) (ascii ''Next'')"
  "ariaPatterns ! 0 \<in> set ariaPatterns"
  "test (ariaPatterns ! 0) (ascii ''Next'')"
  "classIdPatterns ! 0 \<in> set classIdPatterns"
  "test (classIdPatterns ! 0) (ascii ''next '')"
  by (simp_all add: textPatterns_def ariaPatterns_def classIdPatterns_def str_defs)

theorem matchers_after_invalid_element_witness:
  "querySelectorAll skipDoc clickableSelector = [0, 1]
   \<and> \<not> isValidNextPageElement skipDoc (Some 0)
   \<and> isValidNextPageElement skipDoc (Some 1)
   \<and> test (textPatterns ! 0) (getElementText skipDoc 1)
   \<and> findByTextContent skipDoc =
       Some \<lparr>element = Some 1, url = Str (ascii ''https://x/2''), type = TextContent,
             confidence = 9 / 10, clickOnly = Some False, isLoadMore = None\<rparr>
   \<and> findByAriaLabel skipDoc =
       Some \<lparr>element = Some 1, url = Str (ascii ''https://x/2''), type = AriaLabel,
             confidence = 85 / 100, clickOnly = Some False, isLoadMore = None\<rparr>
   \<and> (\<exists>c. findByClassId skipDoc = Some c \<and> isValidNextPageElement skipDoc (element c))
   \<and> querySelector skipDoc (relSelector (ascii ''next'')) = Some 0
   \<and> visibility (el skipDoc 0) = ''hidden''
   \<and> findByRelAttribute skipDoc = None
   \<and> findNextPage skipDoc =
       Some \<lparr>element = Some 1, url = Str (ascii ''https://x/2''), type = TextContent,
             confidence = 9 / 10, clickOnly = Some False, isLoadMore = None\<rparr>"
  using matchers_after_invalid_element
      [where l = 1 and doc = skipDoc and p = "textPatterns ! 0" and a = 1
        and pa = "ariaPatterns ! 0" and e = 1 and pc = "classIdPatterns ! 0" and r = 0]
    skipDoc_queries skipDoc_texts skipDoc_patterns skipDoc_valid skipDoc_rel
  by (simp add: less_Suc_eq)

end
